theory Spec2Isabelle
  imports Main
begin

section \<open>Download orchestration of \<open>selenium_downloader_fixed.py\<close>\<close>

text \<open>
  A shallow embedding of the filename resolver (\<open>get_filename_from_url\<close>), the
  existing-file matcher (\<open>check_file_exists\<close>), the completion watcher
  (\<open>wait_for_download_complete\<close>), the trigger (\<open>click_download_button\<close>) and the
  orchestration loop (\<open>run\<close>).

  Conventions of the model.
  \<^item> A Python \<open>str\<close> is modelled by its UTF-8 encoding: \<open>string\<close> is the list of
    its bytes, and a character is the byte sequence of one code point. Whitespace
    (\<open>str.strip\<close>, \<open>\s\<close>) and decimal digits (\<open>\d\<close>) are those of Unicode 14, and
    \<open>unquote\<close> decodes escaped bytes as UTF-8 with the replacement character, as the
    library does. Case folding (\<open>str.lower\<close>, \<open>re.I\<close>) folds the ASCII letters and
    leaves every other character as it is.
  \<^item> An exception is a value \<open>Exn msg\<close> of type \<open>error\<close>; a function that can raise
    returns \<open>error + 'a\<close>, and every \<open>try\<close>/\<open>except Exception\<close> of the source is a case
    distinction on that sum. \<open>KeyboardInterrupt\<close> is not an \<open>Exception\<close> and passes
    through those handlers.
  \<^item> The standard-library functions the code calls (\<open>urlparse\<close>, \<open>unquote\<close>,
    \<open>parse_qs\<close>, \<open>os.path.splitext\<close>, the three regular expressions) are modelled
    after CPython 3.11/3.12.
  \<^item> The world outside the program (the download directory over time, the answer of
    the HTTP probe, the behaviour of the browser session) is an explicit argument.
    Time is counted in ticks of half a second; only \<open>time.sleep\<close> lets time pass.
\<close>

subsection \<open>Errors and Python truthiness\<close>

datatype error = Exn string | KeyboardInterrupt

text \<open>\<open>if x:\<close> for an \<open>Optional[str]\<close>: neither \<open>None\<close> nor the empty string.\<close>

definition truthy :: "string option \<Rightarrow> bool" where
  "truthy x = (case x of None \<Rightarrow> False | Some s \<Rightarrow> s \<noteq> [])"

subsection \<open>String operations\<close>

text \<open>Bytes below 128 are the ASCII characters; the bytes 128 to 191 continue a character.\<close>

definition is_ascii :: "char \<Rightarrow> bool" where
  "is_ascii c = (\<not> digit7 c)"

definition is_cont :: "char \<Rightarrow> bool" where
  "is_cont c = (digit7 c \<and> \<not> digit6 c)"

text \<open>The characters of a text: a character is a byte with the continuation bytes after it.\<close>

fun chars_of :: "string \<Rightarrow> string list" where
  "chars_of [] = []"
| "chars_of (c # cs) =
     (case chars_of cs of
        [] \<Rightarrow> [[c]]
      | ch # chs \<Rightarrow> if is_cont (hd ch) then (c # ch) # chs else [c] # ch # chs)"

text \<open>The code point of a character of two to four bytes (1114112 stands for none).\<close>

definition code_point :: "string \<Rightarrow> int" where
  "code_point ch =
     (case map of_char ch of
        [a, b] \<Rightarrow> (a - 192) * 64 + (b - 128)
      | [a, b, c] \<Rightarrow> (a - 224) * 4096 + (b - 128) * 64 + (c - 128)
      | [a, b, c, d] \<Rightarrow> (a - 240) * 262144 + (b - 128) * 4096 + (c - 128) * 64 + (d - 128)
      | _ \<Rightarrow> 1114112)"

text \<open>
  \<open>str.isspace\<close>, which is also the class \<open>\s\<close> and what \<open>str.strip\<close> removes: tab to
  carriage return, the four separators 28 to 31 and space in ASCII, and beyond ASCII the
  code points below (U+0085, U+00A0, U+1680, U+2000 to U+200A, U+2028, U+2029, U+202F,
  U+205F, U+3000).
\<close>

definition ascii_spaces :: "char list" where
  "ascii_spaces = [CHR 0x09, CHR 0x0A, CHR 0x0B, CHR 0x0C, CHR 0x0D,
                   CHR 0x1C, CHR 0x1D, CHR 0x1E, CHR 0x1F, CHR 0x20]"

definition wide_spaces :: "int list" where
  "wide_spaces =
     [133, 160, 5760, 8192, 8193, 8194, 8195, 8196, 8197, 8198, 8199, 8200, 8201,
      8202, 8232, 8233, 8239, 8287, 12288]"

definition is_space :: "string \<Rightarrow> bool" where
  "is_space ch = (case ch of [c] \<Rightarrow> c \<in> set ascii_spaces | _ \<Rightarrow> code_point ch \<in> set wide_spaces)"

text \<open>
  The class \<open>\d\<close>: the ASCII digits, and beyond ASCII the code points of general
  category Nd, given as the ranges they form.
\<close>

definition wide_digits :: "(int \<times> int) list" where
  "wide_digits =
     [(1632, 1641), (1776, 1785), (1984, 1993), (2406, 2415), (2534, 2543),
      (2662, 2671), (2790, 2799), (2918, 2927), (3046, 3055), (3174, 3183),
      (3302, 3311), (3430, 3439), (3558, 3567), (3664, 3673), (3792, 3801),
      (3872, 3881), (4160, 4169), (4240, 4249), (6112, 6121), (6160, 6169),
      (6470, 6479), (6608, 6617), (6784, 6793), (6800, 6809), (6992, 7001),
      (7088, 7097), (7232, 7241), (7248, 7257), (42528, 42537), (43216, 43225),
      (43264, 43273), (43472, 43481), (43504, 43513), (43600, 43609), (44016, 44025),
      (65296, 65305), (66720, 66729), (68912, 68921), (69734, 69743), (69872, 69881),
      (69942, 69951), (70096, 70105), (70384, 70393), (70736, 70745), (70864, 70873),
      (71248, 71257), (71360, 71369), (71472, 71481), (71904, 71913), (72016, 72025),
      (72784, 72793), (73040, 73049), (73120, 73129), (92768, 92777), (92864, 92873),
      (93008, 93017), (120782, 120831), (123200, 123209), (123632, 123641),
      (125264, 125273), (130032, 130041)]"

definition is_digit :: "string \<Rightarrow> bool" where
  "is_digit ch =
     (case ch of
        [c] \<Rightarrow> c \<in> set ''0123456789''
      | _ \<Rightarrow> list_ex (\<lambda>(lo, hi). lo \<le> code_point ch \<and> code_point ch \<le> hi) wide_digits)"

definition upper_letters :: "char list" where
  "upper_letters = ''ABCDEFGHIJKLMNOPQRSTUVWXYZ''"

definition lower_letters :: "char list" where
  "lower_letters = ''abcdefghijklmnopqrstuvwxyz''"

definition is_alpha :: "char \<Rightarrow> bool" where
  "is_alpha c = (c \<in> set upper_letters \<or> c \<in> set lower_letters)"

definition lower_char :: "char \<Rightarrow> char" where
  "lower_char c = (case map_of (zip upper_letters lower_letters) c of Some l \<Rightarrow> l | None \<Rightarrow> c)"

definition lower :: "string \<Rightarrow> string" where
  "lower s = map lower_char s"

definition lstrip :: "string \<Rightarrow> string" where
  "lstrip s = concat (dropWhile is_space (chars_of s))"

definition rstrip :: "string \<Rightarrow> string" where
  "rstrip s = concat (rev (dropWhile is_space (rev (chars_of s))))"

definition strip :: "string \<Rightarrow> string" where
  "strip s = rstrip (lstrip s)"

text \<open>\<open>s.strip(chars)\<close> with an explicit character set.\<close>

definition strip_chars :: "char list \<Rightarrow> string \<Rightarrow> string" where
  "strip_chars cs s = rev (dropWhile (\<lambda>c. c \<in> set cs) (rev (dropWhile (\<lambda>c. c \<in> set cs) s)))"

definition startswith :: "string \<Rightarrow> string \<Rightarrow> bool" where
  "startswith s p = (take (length p) s = p)"

definition endswith :: "string \<Rightarrow> string \<Rightarrow> bool" where
  "endswith s p = (length p \<le> length s \<and> drop (length s - length p) s = p)"

text \<open>\<open>sub in s\<close>.\<close>

fun contains :: "string \<Rightarrow> string \<Rightarrow> bool" where
  "contains [] sub = (sub = [])"
| "contains (x # xs) sub = (startswith (x # xs) sub \<or> contains xs sub)"

text \<open>\<open>s.split(c)\<close> for a one-character separator: never the empty list.\<close>

fun split_on :: "char \<Rightarrow> string \<Rightarrow> string list" where
  "split_on c [] = [[]]"
| "split_on c (x # xs) =
     (if x = c then [] # split_on c xs
      else (let r = split_on c xs in (x # hd r) # tl r))"

text \<open>\<open>s.split(c, 1)\<close>: the text before the first \<open>c\<close> and, when there is one, the text after it.\<close>

definition split_once :: "char \<Rightarrow> string \<Rightarrow> string \<times> string option" where
  "split_once c s =
     (if c \<in> set s then (takeWhile (\<lambda>x. x \<noteq> c) s, Some (tl (dropWhile (\<lambda>x. x \<noteq> c) s)))
      else (s, None))"

text \<open>The text after the first occurrence of \<open>sep\<close>: \<open>s.split(sep, 1)[1]\<close>, where \<open>sep in s\<close>.\<close>

fun after_first :: "string \<Rightarrow> string \<Rightarrow> string" where
  "after_first sep [] = []"
| "after_first sep (x # xs) =
     (if startswith (x # xs) sep then drop (length sep) (x # xs) else after_first sep xs)"

subsection \<open>\<open>urllib.parse\<close>: \<open>unquote\<close>, \<open>urlparse\<close>, \<open>parse_qs\<close>\<close>

definition hex_val :: "char \<Rightarrow> int option" where
  "hex_val c =
     map_of (zip ''0123456789'' [0, 1, 2, 3, 4, 5, 6, 7, 8, 9] @
             zip ''abcdef'' [10, 11, 12, 13, 14, 15] @
             zip ''ABCDEF'' [10, 11, 12, 13, 14, 15]) c"

text \<open>
  \<open>unquote_to_bytes\<close> on ASCII text: an escape that is not \<open>%\<close> and two hexadecimal
  digits is kept as it is.
\<close>

fun percent_decode :: "string \<Rightarrow> string" where
  "percent_decode (p # a # b # rest) =
     (if p = CHR ''%'' then
        (case (hex_val a, hex_val b) of
           (Some h, Some l) \<Rightarrow> char_of (16 * h + l) # percent_decode rest
         | _ \<Rightarrow> p # percent_decode (a # b # rest))
      else p # percent_decode (a # b # rest))"
| "percent_decode (p # rest) = p # percent_decode rest"
| "percent_decode [] = []"

text \<open>
  For a byte that can start a character of several bytes: how many bytes follow, and the
  range of the first of them (the well-formed sequences of the Unicode standard).
\<close>

definition lead_info :: "char \<Rightarrow> (nat \<times> int \<times> int) option" where
  "lead_info a =
     (let n = (of_char a :: int) in
      if 194 \<le> n \<and> n \<le> 223 then Some (1, 128, 191)
      else if n = 224 then Some (2, 160, 191)
      else if n = 237 then Some (2, 128, 159)
      else if 225 \<le> n \<and> n \<le> 239 then Some (2, 128, 191)
      else if n = 240 then Some (3, 144, 191)
      else if 241 \<le> n \<and> n \<le> 243 then Some (3, 128, 191)
      else if n = 244 then Some (3, 128, 143)
      else None)"

definition in_range :: "int \<Rightarrow> int \<Rightarrow> char \<Rightarrow> bool" where
  "in_range lo hi b = (lo \<le> (of_char b :: int) \<and> (of_char b :: int) \<le> hi)"

text \<open>The replacement character U+FFFD.\<close>

definition replacement :: string where
  "replacement = [CHR 0xEF, CHR 0xBF, CHR 0xBD]"

text \<open>
  \<open>bytes.decode("utf-8", "replace")\<close>, the result encoded again: well-formed characters
  stay, and every longest ill-formed piece becomes one replacement character.
\<close>

fun utf8_replace :: "string \<Rightarrow> string" where
  "utf8_replace [] = []"
| "utf8_replace (a # rest) =
     (if is_ascii a then a # utf8_replace rest
      else
        (case lead_info a of
           None \<Rightarrow> replacement @ utf8_replace rest
         | Some (n, lo, hi) \<Rightarrow>
             (case rest of
                [] \<Rightarrow> replacement
              | b # r1 \<Rightarrow>
                  if \<not> in_range lo hi b then replacement @ utf8_replace (b # r1)
                  else if n = 1 then a # b # utf8_replace r1
                  else
                    (case r1 of
                       [] \<Rightarrow> replacement
                     | c # r2 \<Rightarrow>
                         if \<not> is_cont c then replacement @ utf8_replace (c # r2)
                         else if n = 2 then a # b # c # utf8_replace r2
                         else
                           (case r2 of
                              [] \<Rightarrow> replacement
                            | d # r3 \<Rightarrow>
                                if \<not> is_cont d then replacement @ utf8_replace (d # r3)
                                else a # b # c # d # utf8_replace r3)))))"

text \<open>The runs of ASCII and of other bytes, in order (\<open>_asciire.split\<close>).\<close>

fun runs :: "string \<Rightarrow> string list" where
  "runs [] = []"
| "runs (c # cs) =
     (case runs cs of
        [] \<Rightarrow> [[c]]
      | r # rs \<Rightarrow> if is_ascii c = is_ascii (hd r) then (c # r) # rs else [c] # r # rs)"

text \<open>
  \<open>unquote\<close>: a text without \<open>%\<close> is returned as it is; otherwise every ASCII run is
  decoded to bytes and these as UTF-8, and the other runs are kept.
\<close>

definition unquote :: "string \<Rightarrow> string" where
  "unquote s =
     (if CHR ''%'' \<notin> set s then s
      else concat (map (\<lambda>r. if is_ascii (hd r) then utf8_replace (percent_decode r) else r)
                    (runs s)))"

definition unquote_plus :: "string \<Rightarrow> string" where
  "unquote_plus s = unquote (map (\<lambda>c. if c = CHR ''+'' then CHR '' '' else c) s)"

record parse_result =
  scheme :: string
  netloc :: string
  path :: string
  params :: string
  query :: string
  fragment :: string

definition scheme_chars :: "char list" where
  "scheme_chars = lower_letters @ upper_letters @ ''0123456789'' @ ''+-.''"

text \<open>\<open>_WHATWG_C0_CONTROL_OR_SPACE\<close>: the characters 0 to 32.\<close>

definition c0_control_or_space :: "char list" where
  "c0_control_or_space =
     [CHR 0x00, CHR 0x01, CHR 0x02, CHR 0x03, CHR 0x04, CHR 0x05, CHR 0x06, CHR 0x07,
      CHR 0x08, CHR 0x09, CHR 0x0A, CHR 0x0B, CHR 0x0C, CHR 0x0D, CHR 0x0E, CHR 0x0F,
      CHR 0x10, CHR 0x11, CHR 0x12, CHR 0x13, CHR 0x14, CHR 0x15, CHR 0x16, CHR 0x17,
      CHR 0x18, CHR 0x19, CHR 0x1A, CHR 0x1B, CHR 0x1C, CHR 0x1D, CHR 0x1E, CHR 0x1F,
      CHR 0x20]"

definition uses_params :: "string list" where
  "uses_params = ['''', ''ftp'', ''hdl'', ''prospero'', ''http'', ''imap'', ''https'', ''shttp'',
     ''rtsp'', ''rtspu'', ''sip'', ''sips'', ''mms'', ''sftp'', ''tel'']"

text \<open>\<open>_splitnetloc(url, 2)\<close>: the authority ends at the first of \<open>/\<close>, \<open>?\<close>, \<open>#\<close>.\<close>

definition splitnetloc :: "string \<Rightarrow> string \<times> string" where
  "splitnetloc url =
     (let r = drop 2 url; d = (\<lambda>c. c \<notin> set ''/?#'')
      in (takeWhile d r, dropWhile d r))"

text \<open>
  \<open>urlsplit\<close>. It raises \<open>ValueError\<close> for unbalanced brackets in the authority, and
  when one of the library's further checks of the authority fails: the check of a
  bracketed host (\<open>_check_bracketed_host\<close>, through \<open>ipaddress\<close>; it differs between
  releases) and, for an authority with characters beyond ASCII, the check under NFKC
  normalisation (\<open>_checknetloc\<close>). The parameter \<open>host_ok\<close> says whether the authority
  passes the checks that apply to it.
\<close>

definition urlsplit :: "(string \<Rightarrow> bool) \<Rightarrow> string \<Rightarrow> error + (string \<times> string \<times> string \<times> string \<times> string)" where
  "urlsplit host_ok url0 =
     (let url1 = dropWhile (\<lambda>c. c \<in> set c0_control_or_space) url0;
          url2 = filter (\<lambda>c. c \<notin> set [CHR 0x09, CHR 0x0D, CHR 0x0A]) url1;
          pre = takeWhile (\<lambda>c. c \<noteq> CHR '':'') url2;
          has_scheme = (CHR '':'' \<in> set url2 \<and> pre \<noteq> [] \<and> is_alpha (hd url2)
                        \<and> (\<forall>c \<in> set pre. c \<in> set scheme_chars));
          sch = (if has_scheme then lower pre else []);
          url3 = (if has_scheme then drop (length pre + 1) url2 else url2)
      in if take 2 url3 = ''//'' then
           (let (nl, url4) = splitnetloc url3;
                lb = (CHR ''['' \<in> set nl); rb = (CHR '']'' \<in> set nl)
            in if (lb \<and> \<not> rb) \<or> (rb \<and> \<not> lb) then Inl (Exn ''Invalid IPv6 URL'')
               else if ((lb \<and> rb) \<or> \<not> list_all is_ascii nl) \<and> \<not> host_ok nl
                    then Inl (Exn ''invalid authority'')
               else
                 (let (u5, fr) = split_once CHR ''#'' url4;
                      (u6, q) = split_once CHR ''?'' u5
                  in Inr (sch, nl, u6, case_option [] id q, case_option [] id fr)))
         else
           (let (u5, fr) = split_once CHR ''#'' url3;
                (u6, q) = split_once CHR ''?'' u5
            in Inr (sch, [], u6, case_option [] id q, case_option [] id fr)))"

text \<open>\<open>_splitparams\<close>: the parameters follow the first \<open>;\<close> of the last path segment.\<close>

definition splitparams :: "string \<Rightarrow> string \<times> string" where
  "splitparams url =
     (if CHR ''/'' \<in> set url then
        (let seg = rev (takeWhile (\<lambda>c. c \<noteq> CHR ''/'') (rev url));
             front = rev (dropWhile (\<lambda>c. c \<noteq> CHR ''/'') (rev url))
         in if CHR '';'' \<in> set seg
            then (front @ takeWhile (\<lambda>c. c \<noteq> CHR '';'') seg,
                  tl (dropWhile (\<lambda>c. c \<noteq> CHR '';'') seg))
            else (url, []))
      else (takeWhile (\<lambda>c. c \<noteq> CHR '';'') url, tl (dropWhile (\<lambda>c. c \<noteq> CHR '';'') url)))"

definition urlparse :: "(string \<Rightarrow> bool) \<Rightarrow> string \<Rightarrow> error + parse_result" where
  "urlparse host_ok url =
     (case urlsplit host_ok url of
        Inl e \<Rightarrow> Inl e
      | Inr (sch, nl, u, q, fr) \<Rightarrow>
          (let (p, ps) = (if sch \<in> set uses_params \<and> CHR '';'' \<in> set u
                          then splitparams u else (u, []))
           in Inr \<lparr>scheme = sch, netloc = nl, path = p, params = ps,
                   query = q, fragment = fr\<rparr>))"

text \<open>
  \<open>parse_qs\<close> with its defaults: fields are separated by \<open>&\<close>; a field without \<open>=\<close>
  or with an empty value is dropped; names and values are decoded. The dictionary maps a
  name to its values in order, so \<open>qs[key][0]\<close> is the first pair with that name.
\<close>

definition parse_qsl :: "string \<Rightarrow> (string \<times> string) list" where
  "parse_qsl qs =
     (if qs = [] then []
      else concat (map (\<lambda>name_value.
             (case split_once CHR ''='' name_value of
                (n, Some v) \<Rightarrow> (if v \<noteq> [] then [(unquote_plus n, unquote_plus v)] else [])
              | (n, None) \<Rightarrow> []))
           (split_on CHR ''&'' qs)))"

definition qs_first :: "string \<Rightarrow> string \<Rightarrow> string option" where
  "qs_first qs key = map_of (parse_qsl qs) key"

subsection \<open>The filename resolver: \<open>get_filename_from_url\<close>\<close>

text \<open>
  \<open>try: body except Exception: return handler\<close>. A \<open>KeyboardInterrupt\<close> is not an
  \<open>Exception\<close> and is not caught.
\<close>

definition except_Exception :: "error + 'a \<Rightarrow> 'a \<Rightarrow> error + 'a" where
  "except_Exception body handler =
     (case body of
        Inr v \<Rightarrow> Inr v
      | Inl (Exn m) \<Rightarrow> Inr handler
      | Inl KeyboardInterrupt \<Rightarrow> Inl KeyboardInterrupt)"

text \<open>
  Rule 1: the last path segment, decoded (\<open>unquote(path.split("/")[-1] or "")\<close>), cut
  at \<open>#\<close> and \<open>?\<close> (\<open>.split("#")[0].split("?")[0]\<close>), then \<open>.strip()\<close>.
\<close>

definition last_segment :: "string \<Rightarrow> string" where
  "last_segment p = unquote (last (split_on CHR ''/'' p))"

definition cut_fragment_query :: "string \<Rightarrow> string" where
  "cut_fragment_query s = hd (split_on CHR ''?'' (hd (split_on CHR ''#'' s)))"

definition ends_in_separator :: "string \<Rightarrow> bool" where
  "ends_in_separator s = (endswith s ''/'' \<or> endswith s [CHR 0x5C])"

definition path_rule :: "string \<Rightarrow> string option" where
  "path_rule p =
     (if p \<noteq> [] then
        (let candidate = strip (cut_fragment_query (last_segment p))
         in if candidate \<noteq> [] \<and> CHR ''.'' \<in> set candidate \<and> \<not> ends_in_separator candidate
            then Some candidate else None)
      else None)"

text \<open>Rule 2: the first of the known query keys whose value, decoded, contains a dot.\<close>

definition query_keys :: "string list" where
  "query_keys = [''file'', ''filename'', ''name'', ''attachment'', ''download'', ''title'']"

fun query_rule :: "string \<Rightarrow> string list \<Rightarrow> string option" where
  "query_rule q [] = None"
| "query_rule q (key # keys) =
     (case qs_first q key of
        None \<Rightarrow> query_rule q keys
      | Some v \<Rightarrow>
          (let candidate = strip (unquote_plus v)
           in if candidate \<noteq> [] \<and> CHR ''.'' \<in> set candidate then Some candidate
              else query_rule q keys))"

text \<open>Rule 3: the last \<open>/\<close>-segment of the fragment.\<close>

definition fragment_rule :: "string \<Rightarrow> string option" where
  "fragment_rule frag =
     (if frag \<noteq> [] \<and> CHR ''.'' \<in> set frag then
        (let frag_candidate = strip (unquote (last (split_on CHR ''/'' frag)))
         in if frag_candidate \<noteq> [] \<and> CHR ''.'' \<in> set frag_candidate
            then Some frag_candidate else None)
      else None)"

text \<open>
  Rule 4 asks the network. The answer of \<open>requests.head\<close> is part of the environment:
  the call raises (also when \<open>requests\<close> is not installed), or the response has no
  \<open>Content-Disposition\<close> header, or it has one.
\<close>

datatype probe = ProbeFails string | NoHeader | ContentDisposition string

text \<open>A literal matched without regard to case at the start of \<open>s\<close>: what follows it.\<close>

definition ci_prefix :: "string \<Rightarrow> string \<Rightarrow> string option" where
  "ci_prefix lit s =
     (if lower (take (length lit) s) = lower lit then Some (drop (length lit) s) else None)"

text \<open>\<open>re.search\<close>: the match at the leftmost position where the pattern matches.\<close>

fun re_search :: "(string \<Rightarrow> 'a option) \<Rightarrow> string \<Rightarrow> 'a option" where
  "re_search m [] = m []"
| "re_search m (x # xs) = (case m (x # xs) of Some g \<Rightarrow> Some g | None \<Rightarrow> re_search m xs)"

text \<open>
  \<open>filename\*\s*=\s*([^;]+)\<close> at the start of \<open>s\<close>, giving group 1. The second \<open>\s*\<close>
  is greedy; when nothing but whitespace precedes the \<open>;\<close> or the end, backtracking
  leaves the last whitespace character to the group.
\<close>

definition filename_star_at :: "string \<Rightarrow> string option" where
  "filename_star_at s =
     (case ci_prefix ''filename*'' s of
        None \<Rightarrow> None
      | Some r0 \<Rightarrow>
          (case lstrip r0 of
             [] \<Rightarrow> None
           | e # r1 \<Rightarrow>
               if e \<noteq> CHR ''='' then None
               else (let ws = takeWhile is_space (chars_of r1);
                         g = takeWhile (\<lambda>c. c \<noteq> CHR '';'') (lstrip r1)
                     in if g \<noteq> [] then Some g
                        else if ws \<noteq> [] then Some (last ws) else None)))"

text \<open>\<open>filename\s*=\s*"?(?P<name>[^\";]+)"?\<close> at the start of \<open>s\<close>, giving the group \<open>name\<close>.\<close>

definition filename_eq_at :: "string \<Rightarrow> string option" where
  "filename_eq_at s =
     (case ci_prefix ''filename'' s of
        None \<Rightarrow> None
      | Some r0 \<Rightarrow>
          (case lstrip r0 of
             [] \<Rightarrow> None
           | e # r1 \<Rightarrow>
               if e \<noteq> CHR ''='' then None
               else (let ws = takeWhile is_space (chars_of r1);
                         r2 = lstrip r1;
                         r3 = (case r2 of [] \<Rightarrow> [] | c # cs \<Rightarrow> if c = CHR 0x22 then cs else r2);
                         g = takeWhile (\<lambda>c. c \<noteq> CHR 0x22 \<and> c \<noteq> CHR '';'') r3
                     in if g \<noteq> [] then Some g
                        else if ws \<noteq> [] then Some (last ws) else None)))"

definition quote_chars :: "char list" where
  "quote_chars = [CHR 0x22, CHR 0x27]"

definition header_filename :: "string \<Rightarrow> string option" where
  "header_filename cd =
     (let first =
        (case re_search filename_star_at cd of
           None \<Rightarrow> None
         | Some g \<Rightarrow>
             (let fname0 = strip_chars quote_chars (strip g);
                  fname1 = (if contains fname0 [CHR 0x27, CHR 0x27]
                            then unquote (after_first [CHR 0x27, CHR 0x27] fname0) else fname0);
                  fname = unquote fname1
              in if CHR ''.'' \<in> set fname then Some fname else None))
      in case first of
           Some fname \<Rightarrow> Some fname
         | None \<Rightarrow>
             (case re_search filename_eq_at cd of
                None \<Rightarrow> None
              | Some g \<Rightarrow>
                  (let fname = unquote (strip_chars quote_chars (strip g))
                   in if CHR ''.'' \<in> set fname then Some fname else None)))"

text \<open>The body of the inner \<open>try\<close>: it raises when the request does.\<close>

definition probe_rule :: "(string \<Rightarrow> probe) \<Rightarrow> string \<Rightarrow> error + string option" where
  "probe_rule head url =
     (case head url of
        ProbeFails m \<Rightarrow> Inl (Exn m)
      | NoHeader \<Rightarrow> Inr None
      | ContentDisposition cd \<Rightarrow> Inr (if cd \<noteq> [] then header_filename cd else None))"

text \<open>The body of the outer \<open>try\<close>: \<open>urlparse\<close> may raise; the inner handler passes.\<close>

definition resolve_body :: "(string \<Rightarrow> bool) \<Rightarrow> (string \<Rightarrow> probe) \<Rightarrow> string \<Rightarrow> error + string option" where
  "resolve_body host_ok head url0 =
     (let url = strip url0 in
      case urlparse host_ok url of
        Inl e \<Rightarrow> Inl e
      | Inr parsed \<Rightarrow>
          (case path_rule (path parsed) of
             Some c \<Rightarrow> Inr (Some c)
           | None \<Rightarrow>
               (case query_rule (query parsed) query_keys of
                  Some c \<Rightarrow> Inr (Some c)
                | None \<Rightarrow>
                    (case fragment_rule (fragment parsed) of
                       Some c \<Rightarrow> Inr (Some c)
                     | None \<Rightarrow> except_Exception (probe_rule head url) None))))"

definition get_filename_from_url :: "(string \<Rightarrow> bool) \<Rightarrow> (string \<Rightarrow> probe) \<Rightarrow> string \<Rightarrow> error + string option" where
  "get_filename_from_url host_ok head url =
     (if url = [] then Inr None
      else except_Exception (resolve_body host_ok head url) None)"

subsection \<open>The existing-file matcher: \<open>check_file_exists\<close>\<close>

text \<open>
  \<open>os.path.splitext\<close>: the extension starts at the last dot of the last path component,
  unless only dots precede it there. On Windows the backslash separates components too.
\<close>

definition splitext :: "bool \<Rightarrow> string \<Rightarrow> string \<times> string" where
  "splitext windows p =
     (let seps = (if windows then [CHR 0x5C, CHR ''/''] else [CHR ''/'']);
          comp = rev (takeWhile (\<lambda>c. c \<notin> set seps) (rev p))
      in if CHR ''.'' \<in> set comp then
           (let ext = CHR ''.'' # rev (takeWhile (\<lambda>c. c \<noteq> CHR ''.'') (rev comp));
                stem = take (length comp - length ext) comp
            in if \<exists>c \<in> set stem. c \<noteq> CHR ''.''
               then (take (length p - length ext) p, ext) else (p, []))
         else (p, []))"

definition temp_suffixes :: "string list" where
  "temp_suffixes = [''.crdownload'', ''.part'', ''.tmp'']"

text \<open>\<open>\s*\(\d+\)\<close> at the start of \<open>s\<close>: what follows the duplicate marker.\<close>

definition dup_marker :: "string \<Rightarrow> string option" where
  "dup_marker s =
     (case lstrip s of
        [] \<Rightarrow> None
      | c # r1 \<Rightarrow>
          if c \<noteq> CHR ''('' \<or> takeWhile is_digit (chars_of r1) = [] then None
          else (case concat (dropWhile is_digit (chars_of r1)) of
                  [] \<Rightarrow> None
                | d # r2 \<Rightarrow> if d = CHR '')'' then Some r2 else None))"

text \<open>\<open>$\<close>: the end of the text, or the position before a final newline.\<close>

definition at_end :: "string \<Rightarrow> bool" where
  "at_end s = (s = [] \<or> s = [CHR 0x0A])"

definition tail_match :: "string \<Rightarrow> string \<Rightarrow> bool" where
  "tail_match ext r =
     (case ci_prefix ext r of
        None \<Rightarrow> False
      | Some r1 \<Rightarrow>
          at_end r1 \<or>
          list_ex (\<lambda>t. case ci_prefix t r1 of None \<Rightarrow> False | Some r2 \<Rightarrow> at_end r2) temp_suffixes)"

text \<open>
  The compiled pattern
  \<open>^base(?:\s*\(\d+\))?ext(?:\.crdownload|\.part|\.tmp)?$\<close>, case-insensitive, with
  \<open>base\<close> and \<open>ext\<close> escaped, tried with \<open>pattern.match\<close>.
\<close>

definition pattern_match :: "string \<Rightarrow> string \<Rightarrow> string \<Rightarrow> bool" where
  "pattern_match base ext fname =
     (case ci_prefix base fname of
        None \<Rightarrow> False
      | Some r \<Rightarrow>
          (case dup_marker r of
             None \<Rightarrow> tail_match ext r
           | Some r1 \<Rightarrow> tail_match ext r1 \<or> tail_match ext r))"

text \<open>\<open>re.sub(r"\s*\(\d+\)$", "", stem)\<close>: the leftmost match is removed.\<close>

fun sub_dup :: "string \<Rightarrow> string" where
  "sub_dup [] = []"
| "sub_dup (x # xs) =
     (case dup_marker (x # xs) of
        None \<Rightarrow> x # sub_dup xs
      | Some r \<Rightarrow> if at_end r then r else x # sub_dup xs)"

text \<open>\<open>lf[: -len(fe)]\<close>.\<close>

definition drop_last :: "nat \<Rightarrow> string \<Rightarrow> string" where
  "drop_last n s = (if n = 0 then [] else take (length s - n) s)"

definition fallback_exts :: "string \<Rightarrow> string list" where
  "fallback_exts ext = [ext, ext @ ''.crdownload'', ext @ ''.part'', ext @ ''.tmp'']"

text \<open>The fallback pass for one directory entry: the inner loop over \<open>fallback_exts\<close>.\<close>

definition fallback_match :: "string \<Rightarrow> string \<Rightarrow> string \<Rightarrow> bool" where
  "fallback_match base ext fname =
     (let lf = lower fname in
      list_ex (\<lambda>fe.
          endswith lf (lower fe) \<and>
          (let stem = drop_last (length fe) lf;
               stem_clean = strip (sub_dup stem)
           in contains stem_clean (lower base)))
        (fallback_exts ext))"

text \<open>
  The body of the \<open>try\<close> of \<open>check_file_exists\<close>. \<open>ls\<close> is what \<open>os.listdir\<close> gives at
  the moment of the call: the entries, or the message of the \<open>OSError\<close> it raises.
\<close>

definition check_body ::
  "(string \<Rightarrow> bool) \<Rightarrow> (string \<Rightarrow> probe) \<Rightarrow> bool \<Rightarrow> string + string list \<Rightarrow> string \<Rightarrow> error + string option" where
  "check_body host_ok head windows ls url =
     (case get_filename_from_url host_ok head url of
        Inl e \<Rightarrow> Inl e
      | Inr None \<Rightarrow> Inr None
      | Inr (Some hint0) \<Rightarrow>
          if hint0 = [] then Inr None
          else (let hint = strip hint0; (base, ext) = splitext windows hint in
                if ext = [] then Inr None
                else (case ls of
                        Inl m \<Rightarrow> Inl (Exn m)
                      | Inr names \<Rightarrow>
                          (case find (pattern_match base ext) names of
                             Some fname \<Rightarrow> Inr (Some fname)
                           | None \<Rightarrow> Inr (find (fallback_match base ext) names)))))"

definition check_file_exists ::
  "(string \<Rightarrow> bool) \<Rightarrow> (string \<Rightarrow> probe) \<Rightarrow> bool \<Rightarrow> string + string list \<Rightarrow> string \<Rightarrow> error + string option" where
  "check_file_exists host_ok head windows ls url =
     except_Exception (check_body host_ok head windows ls url) None"

subsection \<open>The world outside the program\<close>

text \<open>
  The download directory is written by the browser, not by the program, so what the
  program observes is a function of time. \<open>listdir\<close> and \<open>getsize\<close> give the result or
  the message of the \<open>OSError\<close> raised. The other fields are the library's checks of
  an authority, the answer to the \<open>HEAD\<close> request, and the flavour of \<open>os.path\<close>.
\<close>

record world =
  authority_ok :: "string \<Rightarrow> bool"
  head_request :: "string \<Rightarrow> probe"
  on_windows :: bool
  listdir :: "nat \<Rightarrow> string + string list"
  path_exists :: "nat \<Rightarrow> string \<Rightarrow> bool"
  getsize :: "nat \<Rightarrow> string \<Rightarrow> string + nat"

text \<open>\<open>check_file_exists(download_dir, url)\<close> called at instant \<open>now\<close>.\<close>

definition check_at :: "world \<Rightarrow> nat \<Rightarrow> string \<Rightarrow> error + string option" where
  "check_at w now url =
     check_file_exists (authority_ok w) (head_request w) (on_windows w) (listdir w now) url"

subsection \<open>The completion watcher: \<open>wait_for_download_complete\<close>\<close>

definition is_incomplete :: "string \<Rightarrow> bool" where
  "is_incomplete f = (endswith f ''.crdownload'' \<or> endswith f ''.part'' \<or> endswith f ''.tmp'')"

text \<open>
  The stability window of one file: \<open>for _ in range(stable_checks)\<close>. Each round
  sleeps a second (two ticks) and samples the size again; a sample that raises counts as
  the previous size. The result is the flag \<open>stable\<close> and the instant the loop is left.
\<close>

fun stability :: "world \<Rightarrow> string \<Rightarrow> nat \<Rightarrow> nat \<Rightarrow> nat \<Rightarrow> bool \<times> nat" where
  "stability w fn fsize 0 now = (True, now)"
| "stability w fn fsize (Suc n) now =
     (let now1 = now + 2;
          new_size = (case getsize w now1 fn of Inl m \<Rightarrow> fsize | Inr s \<Rightarrow> s)
      in if new_size \<noteq> fsize then (False, now1) else stability w fn fsize n now1)"

text \<open>
  \<open>for fn in list(new_files)\<close>: the first stable file is returned. The first
  \<open>os.path.getsize\<close> is outside any \<open>try\<close>, so its exception leaves the watcher.
\<close>

fun scan_new :: "world \<Rightarrow> nat \<Rightarrow> string list \<Rightarrow> nat \<Rightarrow> error + (string option \<times> nat)" where
  "scan_new w stable_checks [] now = Inr (None, now)"
| "scan_new w stable_checks (fn # fns) now =
     (if \<not> path_exists w now fn then scan_new w stable_checks fns now
      else (case getsize w now fn of
              Inl m \<Rightarrow> Inl (Exn m)
            | Inr fsize \<Rightarrow>
                (case stability w fn fsize stable_checks now of
                   (True, now1) \<Rightarrow> Inr (Some fn, now1)
                 | (False, now1) \<Rightarrow> scan_new w stable_checks fns now1)))"

text \<open>\<open>if target_url: existing = check_file_exists(download_dir, target_url)\<close>.\<close>

definition check_target :: "world \<Rightarrow> string \<Rightarrow> nat \<Rightarrow> error + string option" where
  "check_target w target_url now = (if target_url \<noteq> [] then check_at w now target_url else Inr None)"

lemma stability_time: "stability w fn fsize n now = (b, now1) \<Longrightarrow> now \<le> now1"
proof (induction n arbitrary: now)
  case 0
  then show ?case by simp
next
  case (Suc n)
  then show ?case by (fastforce simp: Let_def split: if_splits)
qed

lemma scan_new_time: "scan_new w sc fns now = Inr (r, now1) \<Longrightarrow> now \<le> now1"
proof (induction fns arbitrary: now)
  case Nil
  then show ?case by simp
next
  case (Cons fn fns)
  show ?case
  proof (cases "path_exists w now fn")
    case False
    with Cons show ?thesis by simp
  next
    case True
    then obtain fsize where sz: "getsize w now fn = Inr fsize"
      using Cons.prems by (cases "getsize w now fn") auto
    obtain b t where st: "stability w fn fsize sc now = (b, t)"
      by (cases "stability w fn fsize sc now")
    have le: "now \<le> t" using st by (rule stability_time)
    show ?thesis
    proof (cases b)
      case True
      with Cons.prems \<open>path_exists w now fn\<close> sz st le show ?thesis by simp
    next
      case False
      with Cons.prems \<open>path_exists w now fn\<close> sz st have "scan_new w sc fns t = Inr (r, now1)"
        by simp
      from Cons.IH [OF this] le show ?thesis by simp
    qed
  qed
qed

text \<open>
  The loop \<open>while time.time() - start < timeout\<close>, with \<open>deadline = start + timeout\<close>
  in ticks. A listing that raises counts as the empty directory. The entries of
  \<open>new_files\<close> are visited in the order of the listing (Python iterates a set, in an order
  of its own; every such order is the order of some listing).
\<close>

function poll :: "world \<Rightarrow> string list \<Rightarrow> string \<Rightarrow> nat \<Rightarrow> nat \<Rightarrow> nat \<Rightarrow> error + string option" where
  "poll w before_files target_url stable_checks deadline now =
     (if now < deadline then
        (let current = (case listdir w now of Inl m \<Rightarrow> [] | Inr names \<Rightarrow> names);
             new_files = filter (\<lambda>f. f \<notin> set before_files) current;
             incomplete = filter is_incomplete new_files
         in if incomplete \<noteq> [] then
              poll w before_files target_url stable_checks deadline (now + 3)
            else
              (case scan_new w stable_checks new_files now of
                 Inl e \<Rightarrow> Inl e
               | Inr (Some fn, now1) \<Rightarrow> Inr (Some fn)
               | Inr (None, now1) \<Rightarrow>
                   (case check_target w target_url now1 of
                      Inl e \<Rightarrow> Inl e
                    | Inr existing \<Rightarrow>
                        if truthy existing then Inr existing
                        else poll w before_files target_url stable_checks deadline (now1 + 2))))
      else Inr None)"
  by pat_completeness auto
termination
proof (relation "measure (\<lambda>(w, b, u, sc, deadline, now). deadline - now)", goal_cases)
  case 1
  show ?case by simp
next
  case (2 w before_files target_url stable_checks deadline now)
  then show ?case by simp
next
  case (3 w before_files target_url stable_checks deadline now x y z x2 x2a x2b)
  then have "now \<le> x2b" by (auto dest: scan_new_time)
  with 3 show ?case by simp
qed

declare poll.simps [simp del]

definition wait_for_download_complete ::
  "world \<Rightarrow> string list \<Rightarrow> string \<Rightarrow> nat \<Rightarrow> nat \<Rightarrow> nat \<Rightarrow> error + string option" where
  "wait_for_download_complete w before_files target_url start timeout stable_checks =
     (case check_target w target_url start of
        Inl e \<Rightarrow> Inl e
      | Inr existing \<Rightarrow>
          if truthy existing then Inr existing
          else poll w before_files target_url stable_checks (start + 2 * timeout) start)"

subsection \<open>The trigger: \<open>click_download_button\<close>\<close>

text \<open>The three values the function returns: \<open>True\<close>, \<open>False\<close>, \<open>"SESSION_EXPIRED"\<close>.\<close>

datatype click_result = PyTrue | PyFalse | SessionExpired

text \<open>
  What the browser session does during one call, as far as the control flow sees it:
  the liveness probe \<open>driver.current_url\<close> raises; or a later call of the driver raises;
  or no button is found; or all three ways of clicking fail; or the button is clicked.
  In the last case \<open>Clicked t d\<close> gives the instant \<open>t\<close> at which \<open>files_before\<close> is
  listed and the ticks \<open>d\<close> that pass until the watcher starts.
\<close>

datatype click_env =
    ProbeDead
  | PageRaises error
  | NoButton
  | ClickFails
  | Clicked nat nat

text \<open>The outer handler: \<open>"session" in str(e).lower()\<close> decides between the two answers.\<close>

definition on_exception :: "string \<Rightarrow> click_result" where
  "on_exception m =
     (if contains (lower m) ''invalid session id'' \<or> contains (lower m) ''session''
      then SessionExpired else PyFalse)"

text \<open>
  After the watcher returns, the source prints the name when there is one; the
  \<open>return True\<close> that followed is commented out together with the extraction block, so
  both branches go on to the warning and \<open>return False\<close>.
\<close>

definition click_download_button :: "world \<Rightarrow> string \<Rightarrow> click_env \<Rightarrow> error + click_result" where
  "click_download_button w page_url env =
     (case env of
        ProbeDead \<Rightarrow> Inr SessionExpired
      | PageRaises (Exn m) \<Rightarrow> Inr (on_exception m)
      | PageRaises KeyboardInterrupt \<Rightarrow> Inl KeyboardInterrupt
      | NoButton \<Rightarrow> Inr PyFalse
      | ClickFails \<Rightarrow> Inr PyFalse
      | Clicked t d \<Rightarrow>
          (case listdir w t of
             Inl m \<Rightarrow> Inr (on_exception m)
           | Inr files_before \<Rightarrow>
               (case wait_for_download_complete w files_before page_url (t + d) 150 3 of
                  Inl (Exn m) \<Rightarrow> Inr (on_exception m)
                | Inl KeyboardInterrupt \<Rightarrow> Inl KeyboardInterrupt
                | Inr completed \<Rightarrow>
                    if truthy completed then Inr PyFalse else Inr PyFalse)))"

subsection \<open>The orchestration loop: \<open>run\<close>\<close>

text \<open>
  What the run shows on the console, as far as the tally is concerned, together with
  one entry for every call of \<open>click_download_button\<close> (the address and the value of
  \<open>downloads_since_refresh\<close> at the call).
\<close>

datatype event =
    EvNoLinks
  | EvSkipped string
  | EvRefreshing
  | EvRestarting
  | EvClick string nat
  | EvProgress nat nat nat
  | EvSummary nat nat nat
  | EvInterrupted
  | EvFatal string

record loop_state =
  successful :: nat
  failed :: nat
  skipped :: nat
  downloads_since_refresh :: nat

definition initial_state :: loop_state where
  "initial_state = \<lparr>successful = 0, failed = 0, skipped = 0, downloads_since_refresh = 0\<rparr>"

text \<open>\<open>progress.update(main_task, advance=1, success=..., skipped=..., failed=...)\<close>.\<close>

definition progress :: "loop_state \<Rightarrow> event" where
  "progress st = EvProgress (successful st) (skipped st) (failed st)"

text \<open>
  The outcomes of the calls the loop body makes for one address: the existing-file
  check, \<open>setup_driver\<close> for the proactive refresh (\<open>None\<close>: a driver is returned), the
  first trigger, \<open>setup_driver\<close> for the restart, the second trigger. The body reads
  only those it reaches.
\<close>

record link_outcomes =
  existing :: "error + string option"
  refresh_setup :: "error option"
  first_click :: "error + click_result"
  restart_setup :: "error option"
  second_click :: "error + click_result"

text \<open>\<open>if result is True: ... else: failed += 1\<close>, then the progress update.\<close>

definition record_result :: "click_result \<Rightarrow> loop_state \<Rightarrow> event list \<times> (error + loop_state)" where
  "record_result result st =
     (let st1 = (if result = PyTrue
                 then st\<lparr>successful := successful st + 1,
                         downloads_since_refresh := downloads_since_refresh st + 1\<rparr>
                 else st\<lparr>failed := failed st + 1\<rparr>)
      in ([progress st1], Inr st1))"

text \<open>The trigger, and the restart with one more trigger when the session is dead.\<close>

definition trigger :: "link_outcomes \<Rightarrow> string \<Rightarrow> loop_state \<Rightarrow> event list \<times> (error + loop_state)" where
  "trigger oc link st =
     (case first_click oc of
        Inl e \<Rightarrow> ([EvClick link (downloads_since_refresh st)], Inl e)
      | Inr result \<Rightarrow>
          if result = SessionExpired then
            (case restart_setup oc of
               Some e \<Rightarrow> ([EvClick link (downloads_since_refresh st), EvRestarting], Inl e)
             | None \<Rightarrow>
                 (let st1 = st\<lparr>downloads_since_refresh := 0\<rparr> in
                  case second_click oc of
                    Inl e \<Rightarrow> ([EvClick link (downloads_since_refresh st), EvRestarting,
                               EvClick link 0], Inl e)
                  | Inr result2 \<Rightarrow>
                      (let (evs, r) = record_result result2 st1
                       in ([EvClick link (downloads_since_refresh st), EvRestarting,
                            EvClick link 0] @ evs, r))))
          else (let (evs, r) = record_result result st
                in (EvClick link (downloads_since_refresh st) # evs, r)))"

text \<open>
  The body of \<open>for idx, link in enumerate(links, 1)\<close>. Its first statements print the
  position and the resolved name and change nothing; the pause after the body is a
  \<open>time.sleep\<close>.
\<close>

definition process_link :: "int \<Rightarrow> link_outcomes \<Rightarrow> string \<Rightarrow> loop_state \<Rightarrow> event list \<times> (error + loop_state)" where
  "process_link session_refresh oc link st =
     (case existing oc of
        Inl e \<Rightarrow> ([], Inl e)
      | Inr ex \<Rightarrow>
          if truthy ex then
            (let st1 = st\<lparr>skipped := skipped st + 1\<rparr>
             in ([EvSkipped (case_option [] id ex), progress st1], Inr st1))
          else if session_refresh \<le> int (downloads_since_refresh st) then
            (case refresh_setup oc of
               Some e \<Rightarrow> ([EvRefreshing], Inl e)
             | None \<Rightarrow>
                 (let (evs, r) = trigger oc link (st\<lparr>downloads_since_refresh := 0\<rparr>)
                  in (EvRefreshing # evs, r)))
          else trigger oc link st)"

text \<open>The loop: an exception leaves it with what was shown so far.\<close>

fun process_links ::
  "int \<Rightarrow> (string \<Rightarrow> link_outcomes) \<Rightarrow> string list \<Rightarrow> loop_state \<Rightarrow> event list \<times> (error + loop_state)" where
  "process_links session_refresh ocs [] st = ([], Inr st)"
| "process_links session_refresh ocs (link # links) st =
     (case process_link session_refresh (ocs link) link st of
        (evs, Inl e) \<Rightarrow> (evs, Inl e)
      | (evs, Inr st1) \<Rightarrow>
          (let (evs1, r) = process_links session_refresh ocs links st1 in (evs @ evs1, r)))"

text \<open>
  The environment of one address: when the existing-file check looks at the directory,
  how the two possible \<open>setup_driver\<close> calls end, and what the session does during the
  two possible triggers.
\<close>

record link_env =
  check_time :: nat
  refresh_driver :: "error option"
  first_env :: click_env
  restart_driver :: "error option"
  second_env :: click_env

definition outcomes :: "world \<Rightarrow> (string \<Rightarrow> link_env) \<Rightarrow> string \<Rightarrow> link_outcomes" where
  "outcomes w envs link =
     \<lparr>existing = check_at w (check_time (envs link)) link,
      refresh_setup = refresh_driver (envs link),
      first_click = click_download_button w link (first_env (envs link)),
      restart_setup = restart_driver (envs link),
      second_click = click_download_button w link (second_env (envs link))\<rparr>"

text \<open>
  \<open>read_urls_from_txt\<close>: the stripped lines that are neither empty nor comments. The
  argument is the lines read before the end of the file or before an error (none when
  the file cannot be opened); the function catches the error and returns what it has.
\<close>

definition read_urls_from_txt :: "string list \<Rightarrow> string list" where
  "read_urls_from_txt lines_read =
     filter (\<lambda>l. l \<noteq> [] \<and> \<not> startswith l ''#'') (map strip lines_read)"

text \<open>\<open>list(dict.fromkeys(links))\<close>: the first occurrence of each address, in order.\<close>

fun dedupe :: "string list \<Rightarrow> string list \<Rightarrow> string list" where
  "dedupe seen [] = []"
| "dedupe seen (l # ls) = (if l \<in> set seen then dedupe seen ls else l # dedupe (l # seen) ls)"

definition hints :: "string list" where
  "hints = [''download'', ''dl'', ''fitgirl'', ''torrent'', ''drive'']"

definition filter_links :: "bool \<Rightarrow> string list \<Rightarrow> string list" where
  "filter_links filter_downloads links =
     (if filter_downloads then
        (let filtered = filter (\<lambda>l. list_ex (\<lambda>k. contains (lower l) k) hints) links
         in if filtered \<noteq> [] then filtered else links)
      else links)"

record run_args =
  arg_input_txt :: "string option"
  arg_url :: "string option"
  arg_filter_downloads :: bool
  arg_session_refresh :: int

text \<open>
  The environment of a run: the first \<open>setup_driver\<close>, the lines that can be read
  from a text file, what \<open>scrape_links\<close> returns or raises, the world
  and the environment of each address.
\<close>

record run_env =
  first_driver :: "error option"
  read_file :: "string \<Rightarrow> string list"
  scrape_links :: "string \<Rightarrow> error + string list"
  the_world :: world
  link_envs :: "string \<Rightarrow> link_env"

text \<open>How a run ends.\<close>

datatype ending = NoLinks | Completed loop_state | Aborted error

text \<open>The two handlers of \<open>run\<close>.\<close>

definition handler :: "error \<Rightarrow> event list" where
  "handler e = (case e of KeyboardInterrupt \<Rightarrow> [EvInterrupted] | Exn m \<Rightarrow> [EvFatal m])"

definition collect_links :: "run_args \<Rightarrow> run_env \<Rightarrow> error + string list" where
  "collect_links args env =
     (let links0 = (if truthy (arg_input_txt args)
                    then read_urls_from_txt (read_file env (case_option [] id (arg_input_txt args)))
                    else [])
      in case (if truthy (arg_url args)
               then (case scrape_links env (case_option [] id (arg_url args)) of
                       Inl e \<Rightarrow> Inl e
                     | Inr page_links \<Rightarrow> Inr (links0 @ page_links))
               else Inr links0) of
           Inl e \<Rightarrow> Inl e
         | Inr links1 \<Rightarrow> Inr (filter_links (arg_filter_downloads args) (dedupe [] links1)))"

text \<open>
  \<open>run\<close>: what is shown, and how the run ends. The progress bar starts with the
  three counts at 0 (\<open>progress.add_task\<close>). The summary is the last statement of the
  \<open>try\<close> block; the handlers print one line; the \<open>finally\<close> block closes the browser
  and shows nothing about the tally.
\<close>

definition run :: "run_args \<Rightarrow> run_env \<Rightarrow> event list \<times> ending" where
  "run args env =
     (case first_driver env of
        Some e \<Rightarrow> (handler e, Aborted e)
      | None \<Rightarrow>
          (case collect_links args env of
             Inl e \<Rightarrow> (handler e, Aborted e)
           | Inr links \<Rightarrow>
               if links = [] then ([EvNoLinks], NoLinks)
               else (case process_links (arg_session_refresh args)
                            (outcomes (the_world env) (link_envs env)) links initial_state of
                       (evs, Inl e) \<Rightarrow> (EvProgress 0 0 0 # evs @ handler e, Aborted e)
                     | (evs, Inr st) \<Rightarrow>
                         (EvProgress 0 0 0 # evs
                            @ [EvSummary (successful st) (skipped st) (failed st)],
                          Completed st))))"

subsection \<open>Concrete environments\<close>

text \<open>A library that accepts every authority, and a machine without network.\<close>

definition any_host :: "string \<Rightarrow> bool" where
  "any_host h = True"

definition no_network :: "string \<Rightarrow> probe" where
  "no_network u = ProbeFails ''connection refused''"

text \<open>
  A directory in which \<open>movie.rar\<close> is present at instant 0 and gone afterwards, and one
  in which \<open>movie.rar\<close> appears at instant 2 and grows by 100 bytes every tick.
\<close>

definition vanishing_world :: world where
  "vanishing_world =
     \<lparr>authority_ok = any_host, head_request = no_network, on_windows = False,
      listdir = (\<lambda>t. Inr (if t = 0 then [''movie.rar''] else [])),
      path_exists = (\<lambda>t f. t = 0 \<and> f = ''movie.rar''),
      getsize = (\<lambda>t f. if t = 0 \<and> f = ''movie.rar'' then Inr 500
                        else Inl ''No such file or directory'')\<rparr>"

definition growing_world :: world where
  "growing_world =
     \<lparr>authority_ok = any_host, head_request = no_network, on_windows = False,
      listdir = (\<lambda>t. Inr (if t < 2 then [] else [''movie.rar''])),
      path_exists = (\<lambda>t f. 2 \<le> t \<and> f = ''movie.rar''),
      getsize = (\<lambda>t f. if 2 \<le> t \<and> f = ''movie.rar'' then Inr (100 * t)
                        else Inl ''No such file or directory'')\<rparr>"



definition expired_twice :: link_outcomes where
  "expired_twice =
     \<lparr>existing = Inr None, refresh_setup = None, first_click = Inr SessionExpired,
      restart_setup = None, second_click = Inr SessionExpired\<rparr>"

text \<open>
  The end-to-end scenario of three addresses. \<open>alpha.rar\<close> is on disk from the start.
  The session is dead at the first trigger of the second address; after the restart the
  button is clicked at instant 10, \<open>beta.rar.crdownload\<close> appears at instant 14 and is
  replaced at instant 20 by \<open>beta.rar\<close>, whose size stays at 1000 bytes. The button of
  the third address is clicked at instant 30 and nothing appears afterwards.
\<close>

definition scenario_world :: world where
  "scenario_world =
     \<lparr>authority_ok = any_host, head_request = no_network, on_windows = False,
      listdir = (\<lambda>t. Inr (if t < 14 then [''alpha.rar'']
                         else if t < 20 then [''alpha.rar'', ''beta.rar.crdownload'']
                         else [''alpha.rar'', ''beta.rar''])),
      path_exists = (\<lambda>t f. f = ''alpha.rar'' \<or> (20 \<le> t \<and> f = ''beta.rar'')),
      getsize = (\<lambda>t f. if f = ''alpha.rar'' \<or> (20 \<le> t \<and> f = ''beta.rar'') then Inr 1000
                        else Inl ''No such file or directory'')\<rparr>"

definition scenario_envs :: "string \<Rightarrow> link_env" where
  "scenario_envs l =
     (if l = ''https://x.test/dl/alpha.rar'' then
        \<lparr>check_time = 0, refresh_driver = None, first_env = NoButton,
         restart_driver = None, second_env = NoButton\<rparr>
      else if l = ''https://x.test/dl/beta.rar'' then
        \<lparr>check_time = 2, refresh_driver = None, first_env = ProbeDead,
         restart_driver = None, second_env = Clicked 10 1\<rparr>
      else
        \<lparr>check_time = 30, refresh_driver = None, first_env = Clicked 30 1,
         restart_driver = None, second_env = NoButton\<rparr>)"

definition scenario_file :: "string \<Rightarrow> string list" where
  "scenario_file p = [''https://x.test/dl/alpha.rar'', ''https://x.test/dl/beta.rar'',
                           ''https://x.test/dl/gamma.rar'']"

definition no_scrape :: "string \<Rightarrow> error + string list" where
  "no_scrape u = Inr []"

definition scenario_env :: run_env where
  "scenario_env =
     \<lparr>first_driver = None, read_file = scenario_file, scrape_links = no_scrape,
      the_world = scenario_world, link_envs = scenario_envs\<rparr>"

definition scenario_args :: run_args where
  "scenario_args =
     \<lparr>arg_input_txt = Some ''urls.txt'', arg_url = None, arg_filter_downloads = False,
      arg_session_refresh = 10\<rparr>"

text \<open>
  Three smaller runs in the world of the scenario. In the first two \<open>alpha.rar\<close> is
  skipped and the run ends at the second address: the user interrupts the trigger, or
  the session is dead and \<open>setup_driver\<close> fails at the restart. The third has the one
  address \<open>alpha.rar\<close>.
\<close>

definition cancelled_envs :: "string \<Rightarrow> link_env" where
  "cancelled_envs l =
     (if l = ''https://x.test/dl/alpha.rar'' then
        \<lparr>check_time = 0, refresh_driver = None, first_env = NoButton,
         restart_driver = None, second_env = NoButton\<rparr>
      else
        \<lparr>check_time = 2, refresh_driver = None, first_env = PageRaises KeyboardInterrupt,
         restart_driver = None, second_env = NoButton\<rparr>)"

definition fatal_envs :: "string \<Rightarrow> link_env" where
  "fatal_envs l =
     (if l = ''https://x.test/dl/alpha.rar'' then
        \<lparr>check_time = 0, refresh_driver = None, first_env = NoButton,
         restart_driver = None, second_env = NoButton\<rparr>
      else
        \<lparr>check_time = 2, refresh_driver = None, first_env = ProbeDead,
         restart_driver = Some (Exn ''cannot start chromedriver''), second_env = NoButton\<rparr>)"

definition two_addresses :: "string \<Rightarrow> string list" where
  "two_addresses p = [''https://x.test/dl/alpha.rar'', ''https://x.test/dl/beta.rar'']"

definition one_address :: "string \<Rightarrow> string list" where
  "one_address p = [''https://x.test/dl/alpha.rar'']"

definition cancelled_env :: run_env where
  "cancelled_env =
     \<lparr>first_driver = None, read_file = two_addresses, scrape_links = no_scrape,
      the_world = scenario_world, link_envs = cancelled_envs\<rparr>"

definition fatal_env :: run_env where
  "fatal_env =
     \<lparr>first_driver = None, read_file = two_addresses, scrape_links = no_scrape,
      the_world = scenario_world, link_envs = fatal_envs\<rparr>"

definition skip_env :: run_env where
  "skip_env =
     \<lparr>first_driver = None, read_file = one_address, scrape_links = no_scrape,
      the_world = scenario_world, link_envs = scenario_envs\<rparr>"

text \<open>The directory entries of the matcher's example.\<close>

definition game_variants :: "string list" where
  "game_variants = [''game.rar'', ''game (1).rar'', ''game.rar.crdownload'', ''game (2).rar.part'']"

section \<open>Properties\<close>

subsection \<open>Exceptions inside the resolver and the matcher\<close>

lemma urlsplit_raises_Exn: "urlsplit host_ok u = Inl e \<Longrightarrow> \<exists>m. e = Exn m"
  by (auto simp: urlsplit_def Let_def split: if_splits prod.splits)

lemma urlparse_raises_Exn: "urlparse host_ok u = Inl e \<Longrightarrow> \<exists>m. e = Exn m"
  by (auto simp: urlparse_def Let_def dest: urlsplit_raises_Exn split: sum.splits prod.splits)

lemma probe_rule_raises_Exn: "probe_rule head u = Inl e \<Longrightarrow> \<exists>m. e = Exn m"
  by (auto simp: probe_rule_def split: probe.splits)

lemma except_Exception_Exn: "body = Inl (Exn m) \<Longrightarrow> except_Exception body h = Inr h"
  by (simp add: except_Exception_def)

lemma except_Exception_returns:
  assumes "\<And>e. body = Inl e \<Longrightarrow> \<exists>m. e = Exn m"
  shows "\<exists>r. except_Exception body h = Inr r"
proof (cases body)
  case (Inl e)
  with assms obtain m where "e = Exn m" by blast
  with Inl show ?thesis by (simp add: except_Exception_def)
next
  case (Inr v)
  then show ?thesis by (simp add: except_Exception_def)
qed

lemma probe_handled: "\<exists>r. except_Exception (probe_rule head u) None = Inr r"
  by (rule except_Exception_returns) (rule probe_rule_raises_Exn)

lemma resolve_body_raises_Exn:
  assumes "resolve_body host_ok head url = Inl e"
  shows "\<exists>m. e = Exn m"
proof (cases "urlparse host_ok (strip url)")
  case (Inl e')
  with assms have "e = e'" by (simp add: resolve_body_def)
  with Inl show ?thesis by (auto dest: urlparse_raises_Exn)
next
  case (Inr parsed)
  obtain r where "except_Exception (probe_rule head (strip url)) None = Inr r"
    using probe_handled by blast
  with Inr assms show ?thesis
    by (simp add: resolve_body_def split: option.splits)
qed

lemma get_filename_returns: "\<exists>r. get_filename_from_url host_ok head url = Inr r"
proof (cases "url = []")
  case True
  then show ?thesis by (simp add: get_filename_from_url_def)
next
  case False
  have "\<exists>r. except_Exception (resolve_body host_ok head url) None = Inr r"
    by (rule except_Exception_returns) (rule resolve_body_raises_Exn)
  with False show ?thesis by (simp add: get_filename_from_url_def)
qed

lemma check_body_raises_Exn:
  assumes "check_body host_ok head windows ls url = Inl e"
  shows "\<exists>m. e = Exn m"
proof -
  obtain r where r: "get_filename_from_url host_ok head url = Inr r"
    using get_filename_returns by blast
  with assms show ?thesis
    by (auto simp: check_body_def Let_def split: option.splits if_splits prod.splits sum.splits)
qed

lemma check_file_exists_returns: "\<exists>r. check_file_exists host_ok head windows ls url = Inr r"
  unfolding check_file_exists_def
  by (rule except_Exception_returns) (rule check_body_raises_Exn)

subsection \<open>C8: the resolver raises nothing\<close>

text \<open>
  Claim C8. For every address, \<open>get_filename_from_url\<close> returns to its caller: the
  result is a value, never an exception. An address on which \<open>urlparse\<close> raises gives
  \<open>None\<close>; when no rule on the address itself applies and the network probe raises, the
  result is \<open>None\<close>; the empty address gives \<open>None\<close>.
\<close>

theorem resolver_never_raises:
  "(\<exists>r. get_filename_from_url host_ok head url = Inr r)
   \<and> (\<forall>e. url \<noteq> [] \<and> urlparse host_ok (strip url) = Inl e
          \<longrightarrow> get_filename_from_url host_ok head url = Inr None)
   \<and> (\<forall>parsed m. url \<noteq> [] \<and> urlparse host_ok (strip url) = Inr parsed
          \<and> path_rule (path parsed) = None
          \<and> query_rule (query parsed) query_keys = None
          \<and> fragment_rule (fragment parsed) = None
          \<and> head (strip url) = ProbeFails m
          \<longrightarrow> get_filename_from_url host_ok head url = Inr None)
   \<and> get_filename_from_url host_ok head [] = Inr None"
proof (intro conjI allI impI)
  show "\<exists>r. get_filename_from_url host_ok head url = Inr r"
    by (rule get_filename_returns)
next
  fix e
  assume a: "url \<noteq> [] \<and> urlparse host_ok (strip url) = Inl e"
  then obtain m where "e = Exn m" by (auto dest: urlparse_raises_Exn)
  with a show "get_filename_from_url host_ok head url = Inr None"
    by (simp add: get_filename_from_url_def resolve_body_def except_Exception_def)
next
  fix parsed m
  assume "url \<noteq> [] \<and> urlparse host_ok (strip url) = Inr parsed
          \<and> path_rule (path parsed) = None
          \<and> query_rule (query parsed) query_keys = None
          \<and> fragment_rule (fragment parsed) = None
          \<and> head (strip url) = ProbeFails m"
  then show "get_filename_from_url host_ok head url = Inr None"
    by (simp add: get_filename_from_url_def resolve_body_def probe_rule_def except_Exception_def)
next
  show "get_filename_from_url host_ok head [] = Inr None"
    by (simp add: get_filename_from_url_def)
qed

lemma malformed_address_parse:
  "urlparse any_host (strip ''http://[::1/a.rar'') = Inl (Exn ''Invalid IPv6 URL'')"
  by code_simp

lemma bare_address_parse:
  "urlparse any_host (strip ''https://x.test/'')
     = Inr \<lparr>scheme = ''https'', netloc = ''x.test'', path = ''/'', params = [],
            query = [], fragment = []\<rparr>"
  by code_simp

lemma bare_address_rules:
  "path_rule ''/'' = None \<and> query_rule [] query_keys = None \<and> fragment_rule [] = None"
  by code_simp

theorem resolver_never_raises_witness:
  "urlparse any_host (strip ''http://[::1/a.rar'') = Inl (Exn ''Invalid IPv6 URL'')
   \<and> get_filename_from_url any_host no_network ''http://[::1/a.rar'' = Inr None
   \<and> no_network (strip ''https://x.test/'') = ProbeFails ''connection refused''
   \<and> get_filename_from_url any_host no_network ''https://x.test/'' = Inr None"
proof -
  have 1: "get_filename_from_url any_host no_network ''http://[::1/a.rar'' = Inr None"
    using resolver_never_raises [of any_host no_network "''http://[::1/a.rar''"]
      malformed_address_parse by blast
  have 2: "get_filename_from_url any_host no_network ''https://x.test/'' = Inr None"
    using resolver_never_raises [of any_host no_network "''https://x.test/''"]
      bare_address_parse bare_address_rules
    by (simp add: no_network_def)
  from 1 2 malformed_address_parse show ?thesis by (simp add: no_network_def)
qed

subsection \<open>C10: the matcher raises nothing\<close>

text \<open>
  Claim C10. For every directory and address, \<open>check_file_exists\<close> returns a file name
  or \<open>None\<close> and raises nothing; when listing the directory fails, it returns \<open>None\<close>.
\<close>

theorem matcher_never_raises:
  "(\<exists>r. check_file_exists host_ok head windows ls url = Inr r)
   \<and> (\<forall>m. ls = Inl m \<longrightarrow> check_file_exists host_ok head windows ls url = Inr None)"
proof (intro conjI allI impI)
  show "\<exists>r. check_file_exists host_ok head windows ls url = Inr r"
    by (rule check_file_exists_returns)
next
  fix m
  assume ls: "ls = Inl m"
  obtain r where r: "get_filename_from_url host_ok head url = Inr r"
    using get_filename_returns by blast
  show "check_file_exists host_ok head windows ls url = Inr None"
    using ls r
    by (simp add: check_file_exists_def check_body_def except_Exception_def Let_def
        split: option.splits prod.splits)
qed

theorem matcher_never_raises_witness:
  "check_file_exists any_host no_network False (Inl ''No such file or directory'')
     ''https://x.test/dl/game.rar'' = Inr None"
  using matcher_never_raises [of any_host no_network False "Inl ''No such file or directory''"
      "''https://x.test/dl/game.rar''"]
  by simp

subsection \<open>C7: the first rule of the resolver\<close>

lemma urlparse_empty:
  "urlparse host_ok [] = Inr \<lparr>scheme = [], netloc = [], path = [], params = [], query = [], fragment = []\<rparr>"
  by (simp add: urlparse_def urlsplit_def split_once_def uses_params_def)

lemma strip_empty: "strip [] = []"
  by (simp add: strip_def lstrip_def rstrip_def)

lemma segment_of_empty_path: "strip (cut_fragment_query (last_segment [])) = []"
  by (simp add: cut_fragment_query_def last_segment_def unquote_def strip_empty)

lemma first_rule_wins:
  assumes "url \<noteq> []" and "urlparse host_ok (strip url) = Inr parsed"
    and "path_rule (path parsed) = Some c"
  shows "get_filename_from_url host_ok head url = Inr (Some c)"
  using assms by (simp add: get_filename_from_url_def resolve_body_def except_Exception_def)

text \<open>
  Claim C7, amended. Let the address parse, and let \<open>c\<close> be the last path segment,
  percent-decoded, cut at the first \<open>#\<close> and \<open>?\<close>, and with surrounding whitespace
  removed. If \<open>c\<close> contains a dot and does not end in \<open>/\<close> or a backslash, the resolver
  returns \<open>c\<close>, whatever the query, the fragment and the network say.
\<close>

theorem first_rule_returns_segment:
  assumes "urlparse host_ok (strip url) = Inr parsed"
    and "c = strip (cut_fragment_query (last_segment (path parsed)))"
    and "CHR ''.'' \<in> set c" and "\<not> ends_in_separator c"
  shows "get_filename_from_url host_ok head url = Inr (Some c)"
proof -
  have c: "c \<noteq> []" using assms(3) by auto
  have p: "path parsed \<noteq> []"
  proof
    assume "path parsed = []"
    with assms(2) have "c = []" by (simp add: segment_of_empty_path)
    with c show False by simp
  qed
  have u: "url \<noteq> []"
  proof
    assume "url = []"
    with assms(1) have "path parsed = []" by (auto simp: strip_empty urlparse_empty)
    with p show False by simp
  qed
  have "path_rule (path parsed) = Some c"
    using p c assms(2,3,4) by (simp add: path_rule_def Let_def)
  with u assms(1) show ?thesis by (rule first_rule_wins)
qed

lemma forza_parse:
  "urlparse any_host (strip ''https://x.test/dl/Forza%20Horizon.rar?ref=1'')
     = Inr \<lparr>scheme = ''https'', netloc = ''x.test'', path = ''/dl/Forza%20Horizon.rar'',
            params = [], query = ''ref=1'', fragment = []\<rparr>"
  by code_simp

lemma forza_segment:
  "strip (cut_fragment_query (last_segment ''/dl/Forza%20Horizon.rar'')) = ''Forza Horizon.rar''
   \<and> \<not> ends_in_separator ''Forza Horizon.rar''"
  by code_simp

theorem first_rule_returns_segment_witness:
  "get_filename_from_url any_host no_network ''https://x.test/dl/Forza%20Horizon.rar?ref=1''
     = Inr (Some ''Forza Horizon.rar'')"
  using first_rule_returns_segment [OF forza_parse, of "''Forza Horizon.rar''" no_network]
    forza_segment by simp

text \<open>
  Whitespace that comes out of the decoding is removed as well: the escapes \<open>%C2%A0\<close>
  decode to a no-break space, so this segment is \<open>a.b/\<close> after trimming, ends in a
  separator and is not accepted.
\<close>

lemma escaped_space_is_trimmed:
  "strip (cut_fragment_query (last_segment ''/dl/a.b%2F%C2%A0'')) = ''a.b/''
   \<and> get_filename_from_url any_host no_network ''https://x.test/dl/a.b%2F%C2%A0'' = Inr None"
  by code_simp

text \<open>
  Claim C7 as stated has the segment returned exactly as decoded and cut. The source
  also strips whitespace: the segment \<open>a.rar%20\<close> decodes to \<open>a.rar\<close> followed by a
  space, contains a dot, does not end in a separator, and the resolver returns \<open>a.rar\<close>.
\<close>

theorem first_rule_untrimmed_counterexample:
  "urlparse any_host (strip ''https://x.test/dl/a.rar%20'')
     = Inr \<lparr>scheme = ''https'', netloc = ''x.test'', path = ''/dl/a.rar%20'',
            params = [], query = [], fragment = []\<rparr>
   \<and> cut_fragment_query (last_segment ''/dl/a.rar%20'') = ''a.rar ''
   \<and> CHR ''.'' \<in> set ''a.rar ''
   \<and> \<not> ends_in_separator ''a.rar ''
   \<and> get_filename_from_url any_host no_network ''https://x.test/dl/a.rar%20'' = Inr (Some ''a.rar'')
   \<and> get_filename_from_url any_host no_network ''https://x.test/dl/a.rar%20'' \<noteq> Inr (Some ''a.rar '')"
  by code_simp

subsection \<open>C3: which entries the matcher accepts\<close>

lemma game_name: "strip ''game.rar'' = ''game.rar''"
  by code_simp

lemma game_splitext: "splitext windows ''game.rar'' = (''game'', ''.rar'')"
proof (cases windows)
  case True
  have "splitext True ''game.rar'' = (''game'', ''.rar'')" by code_simp
  with True show ?thesis by simp
next
  case False
  have "splitext False ''game.rar'' = (''game'', ''.rar'')" by code_simp
  with False show ?thesis by simp
qed

lemma check_game:
  assumes "get_filename_from_url host_ok head url = Inr (Some ''game.rar'')"
  shows "check_file_exists host_ok head windows (Inr names) url =
           Inr (case find (pattern_match ''game'' ''.rar'') names of
                  Some fname \<Rightarrow> Some fname
                | None \<Rightarrow> find (fallback_match ''game'' ''.rar'') names)"
proof -
  have "check_body host_ok head windows (Inr names) url =
           Inr (case find (pattern_match ''game'' ''.rar'') names of
                  Some fname \<Rightarrow> Some fname
                | None \<Rightarrow> find (fallback_match ''game'' ''.rar'') names)"
    unfolding check_body_def assms
    by (simp add: game_name game_splitext split: option.splits)
  then show ?thesis by (simp add: check_file_exists_def except_Exception_def)
qed


lemma strict_game:
  "pattern_match ''game'' ''.rar'' ''game.rar''"
  "pattern_match ''game'' ''.rar'' ''game (1).rar''"
  "pattern_match ''game'' ''.rar'' ''game.rar.crdownload''"
  "pattern_match ''game'' ''.rar'' ''game (2).rar.part''"
  by code_simp+

lemma gameplay_strict: "\<not> pattern_match ''game'' ''.rar'' ''gameplay.rar''"
  by code_simp

lemma gameplay_fallback: "fallback_match ''game'' ''.rar'' ''gameplay.rar''"
  by code_simp

lemma find_hit:
  assumes "e \<in> set names" and "P e"
  shows "\<exists>m \<in> set names. find P names = Some m"
  using assms by (induction names) auto

lemma game_variants_strict: "e \<in> set game_variants \<Longrightarrow> pattern_match ''game'' ''.rar'' e"
  unfolding game_variants_def using strict_game by auto

text \<open>
  Claim C3, amended. For an address that resolves to \<open>game.rar\<close>: each of \<open>game.rar\<close>,
  \<open>game (1).rar\<close>, \<open>game.rar.crdownload\<close> and \<open>game (2).rar.part\<close> matches the strict
  pattern and is returned when it is the only entry; a directory that contains one of
  them yields a match among its entries. \<open>gameplay.rar\<close> does not match the strict
  pattern, but the fallback pass accepts it (same extension, stem containing \<open>game\<close>),
  so a directory whose only entry is \<open>gameplay.rar\<close> yields \<open>gameplay.rar\<close>.
\<close>

theorem game_rar_matching:
  assumes "get_filename_from_url host_ok head url = Inr (Some ''game.rar'')"
  shows "(\<forall>e \<in> set game_variants.
            pattern_match ''game'' ''.rar'' e
            \<and> check_file_exists host_ok head windows (Inr [e]) url = Inr (Some e))
       \<and> (\<forall>names. (\<exists>e \<in> set game_variants. e \<in> set names)
            \<longrightarrow> (\<exists>m \<in> set names. check_file_exists host_ok head windows (Inr names) url = Inr (Some m)))
       \<and> \<not> pattern_match ''game'' ''.rar'' ''gameplay.rar''
       \<and> fallback_match ''game'' ''.rar'' ''gameplay.rar''
       \<and> check_file_exists host_ok head windows (Inr [''gameplay.rar'']) url
           = Inr (Some ''gameplay.rar'')"
proof -
  note cg = check_game [OF assms, of windows]
  have a: "\<forall>e \<in> set game_variants.
            pattern_match ''game'' ''.rar'' e
            \<and> check_file_exists host_ok head windows (Inr [e]) url = Inr (Some e)"
  proof
    fix e assume "e \<in> set game_variants"
    then have "pattern_match ''game'' ''.rar'' e" by (rule game_variants_strict)
    then show "pattern_match ''game'' ''.rar'' e
            \<and> check_file_exists host_ok head windows (Inr [e]) url = Inr (Some e)"
      by (simp add: cg)
  qed
  have b: "\<forall>names. (\<exists>e \<in> set game_variants. e \<in> set names)
            \<longrightarrow> (\<exists>m \<in> set names. check_file_exists host_ok head windows (Inr names) url = Inr (Some m))"
  proof (intro allI impI)
    fix names assume "\<exists>e \<in> set game_variants. e \<in> set names"
    then obtain e where e: "e \<in> set names" "pattern_match ''game'' ''.rar'' e"
      using game_variants_strict by blast
    from find_hit [of e names "pattern_match ''game'' ''.rar''", OF e] obtain m
      where m: "m \<in> set names" "find (pattern_match ''game'' ''.rar'') names = Some m" by blast
    have "check_file_exists host_ok head windows (Inr names) url = Inr (Some m)"
      by (simp add: cg m(2))
    with m(1) show "\<exists>m \<in> set names. check_file_exists host_ok head windows (Inr names) url = Inr (Some m)"
      by blast
  qed
  have c: "check_file_exists host_ok head windows (Inr [''gameplay.rar'']) url
           = Inr (Some ''gameplay.rar'')"
    using gameplay_strict gameplay_fallback by (simp add: cg)
  from a b c gameplay_strict gameplay_fallback show ?thesis by blast
qed


lemma game_address:
  "get_filename_from_url any_host no_network ''https://x.test/dl/game.rar'' = Inr (Some ''game.rar'')"
  by code_simp

theorem game_rar_matching_witness:
  "get_filename_from_url any_host no_network ''https://x.test/dl/game.rar'' = Inr (Some ''game.rar'')
   \<and> ''game (1).rar'' \<in> set game_variants
   \<and> check_file_exists any_host no_network False (Inr [''game (1).rar''])
        ''https://x.test/dl/game.rar'' = Inr (Some ''game (1).rar'')
   \<and> check_file_exists any_host no_network False (Inr [''gameplay.rar''])
        ''https://x.test/dl/game.rar'' = Inr (Some ''gameplay.rar'')"
proof -
  note t = game_rar_matching [OF game_address, of False]
  from t have a: "\<forall>e \<in> set game_variants.
      pattern_match ''game'' ''.rar'' e
      \<and> check_file_exists any_host no_network False (Inr [e]) ''https://x.test/dl/game.rar''
          = Inr (Some e)"
    by (rule conjunct1)
  have m: "''game (1).rar'' \<in> set game_variants" by (simp add: game_variants_def)
  from bspec [OF a m] have 1: "check_file_exists any_host no_network False (Inr [''game (1).rar''])
        ''https://x.test/dl/game.rar'' = Inr (Some ''game (1).rar'')"
    by (rule conjunct2)
  note 2 = t [THEN conjunct2, THEN conjunct2, THEN conjunct2, THEN conjunct2]
  show ?thesis
    by (intro conjI) (rule game_address, rule m, rule 1, rule 2)
qed

lemma gameplay_listing:
  "check_file_exists any_host no_network False (Inr [''gameplay.rar''])
        ''https://x.test/dl/game.rar'' = Inr (Some ''gameplay.rar'')"
  by code_simp

text \<open>
  Claim C3 as stated has no match when the only entry is \<open>gameplay.rar\<close>. The
  matcher returns that entry.
\<close>

theorem gameplay_matched_counterexample:
  "get_filename_from_url any_host no_network ''https://x.test/dl/game.rar'' = Inr (Some ''game.rar'')
   \<and> check_file_exists any_host no_network False (Inr [''gameplay.rar''])
        ''https://x.test/dl/game.rar'' = Inr (Some ''gameplay.rar'')
   \<and> check_file_exists any_host no_network False (Inr [''gameplay.rar''])
        ''https://x.test/dl/game.rar'' \<noteq> Inr None"
  using game_address gameplay_listing by simp

subsection \<open>C9: a size sample that raises\<close>

lemma stability_equal_samples:
  assumes "\<forall>k. 1 \<le> k \<and> k \<le> n \<longrightarrow>
             (case getsize w (now + 2 * k) fn of Inl m \<Rightarrow> True | Inr s \<Rightarrow> s = fsize)"
  shows "stability w fn fsize n now = (True, now + 2 * n)"
  using assms
proof (induction n arbitrary: now)
  case 0
  then show ?case by simp
next
  case (Suc n)
  have first: "case getsize w (now + 2) fn of Inl m \<Rightarrow> True | Inr s \<Rightarrow> s = fsize"
    using Suc.prems [rule_format, of 1] by simp
  have rest: "\<forall>k. 1 \<le> k \<and> k \<le> n \<longrightarrow>
             (case getsize w ((now + 2) + 2 * k) fn of Inl m \<Rightarrow> True | Inr s \<Rightarrow> s = fsize)"
  proof (intro allI impI)
    fix k assume "1 \<le> k \<and> k \<le> n"
    then have "1 \<le> Suc k \<and> Suc k \<le> Suc n" by simp
    from Suc.prems [rule_format, OF this]
    show "case getsize w ((now + 2) + 2 * k) fn of Inl m \<Rightarrow> True | Inr s \<Rightarrow> s = fsize"
      by (simp add: add.assoc)
  qed
  have "stability w fn fsize n (now + 2) = (True, (now + 2) + 2 * n)"
    by (rule Suc.IH [OF rest])
  with first show ?case
    by (cases "getsize w (now + 2) fn") (simp_all add: Let_def)
qed


lemma poll_expired:
  "\<not> now < deadline \<Longrightarrow> poll w before_files target_url stable_checks deadline now = Inr None"
  by (subst poll.simps) simp

lemma poll_incomplete:
  assumes "now < deadline"
    and "filter (\<lambda>f. f \<notin> set before_files)
           (case listdir w now of Inl m \<Rightarrow> [] | Inr names \<Rightarrow> names) = new_files"
    and "filter is_incomplete new_files \<noteq> []"
  shows "poll w before_files target_url stable_checks deadline now
           = poll w before_files target_url stable_checks deadline (now + 3)"
  using assms by (subst poll.simps) (simp add: Let_def del: filter_filter)

lemma poll_complete:
  assumes "now < deadline"
    and "filter (\<lambda>f. f \<notin> set before_files)
           (case listdir w now of Inl m \<Rightarrow> [] | Inr names \<Rightarrow> names) = new_files"
    and "filter is_incomplete new_files = []"
  shows "poll w before_files target_url stable_checks deadline now
           = (case scan_new w stable_checks new_files now of
                Inl e \<Rightarrow> Inl e
              | Inr (Some fn, now1) \<Rightarrow> Inr (Some fn)
              | Inr (None, now1) \<Rightarrow>
                  (case check_target w target_url now1 of
                     Inl e \<Rightarrow> Inl e
                   | Inr ex \<Rightarrow>
                       if truthy ex then Inr ex
                       else poll w before_files target_url stable_checks deadline (now1 + 2)))"
  using assms by (subst poll.simps) (simp add: Let_def del: filter_filter)

text \<open>
  Claim C9. Let a new, non-temporary file \<open>fn\<close> be the first new entry of a poll cycle,
  present with size \<open>fsize\<close> when the cycle starts. If every later sample of the
  stability window either raises or gives \<open>fsize\<close> again, the window ends with
  \<open>stable = True\<close> after \<open>stable_checks\<close> rounds and the watcher returns \<open>fn\<close>: a
  sample that raises counts as the previous size, so a file that has disappeared is
  returned as a completed download.
\<close>

theorem vanished_file_is_returned:
  assumes "listdir w start = Inr names"
    and "filter (\<lambda>f. f \<notin> set before_files) names = fn # others"
    and "filter is_incomplete (fn # others) = []"
    and "path_exists w start fn"
    and "getsize w start fn = Inr fsize"
    and "\<forall>k. 1 \<le> k \<and> k \<le> stable_checks \<longrightarrow>
           (case getsize w (start + 2 * k) fn of Inl m \<Rightarrow> True | Inr s \<Rightarrow> s = fsize)"
    and "check_target w target_url start = Inr None"
    and "0 < timeout"
  shows "stability w fn fsize stable_checks start = (True, start + 2 * stable_checks)
       \<and> wait_for_download_complete w before_files target_url start timeout stable_checks
           = Inr (Some fn)"
proof -
  have st: "stability w fn fsize stable_checks start = (True, start + 2 * stable_checks)"
    by (rule stability_equal_samples [OF assms(6)])
  have sc: "scan_new w stable_checks (fn # others) start = Inr (Some fn, start + 2 * stable_checks)"
    using assms(4,5) st by simp
  have lt: "start < start + 2 * timeout" using assms(8) by simp
  have nf: "filter (\<lambda>f. f \<notin> set before_files)
           (case listdir w start of Inl m \<Rightarrow> [] | Inr names \<Rightarrow> names) = fn # others"
    using assms(1,2) by simp
  have "poll w before_files target_url stable_checks (start + 2 * timeout) start = Inr (Some fn)"
    by (simp only: poll_complete [OF lt nf assms(3)] sc sum.case prod.case option.case)
  with assms(7) st show ?thesis
    by (simp add: wait_for_download_complete_def truthy_def)
qed

lemma poll_quiet:
  assumes "\<forall>t. now \<le> t \<longrightarrow>
             (case listdir w t of Inl m \<Rightarrow> True | Inr names \<Rightarrow> set names \<subseteq> set before_files)"
    and "\<forall>t. now \<le> t \<longrightarrow> check_target w target_url t = Inr None"
  shows "poll w before_files target_url stable_checks deadline now = Inr None"
  using assms
proof (induction "deadline - now" arbitrary: now rule: less_induct)
  case less
  show ?case
  proof (cases "now < deadline")
    case False
    then show ?thesis by (rule poll_expired)
  next
    case True
    have nonew: "filter (\<lambda>f. f \<notin> set before_files)
                   (case listdir w now of Inl m \<Rightarrow> [] | Inr names \<Rightarrow> names) = []"
      using less.prems(1) [rule_format, of now]
      by (cases "listdir w now") (auto simp: filter_empty_conv)
    have ct: "check_target w target_url now = Inr None"
      using less.prems(2) by simp
    have next_call: "poll w before_files target_url stable_checks deadline (now + 2) = Inr None"
    proof (rule less.hyps)
      show "deadline - (now + 2) < deadline - now" using True by simp
      show "\<forall>t. now + 2 \<le> t \<longrightarrow>
             (case listdir w t of Inl m \<Rightarrow> True | Inr names \<Rightarrow> set names \<subseteq> set before_files)"
        using less.prems(1) by simp
      show "\<forall>t. now + 2 \<le> t \<longrightarrow> check_target w target_url t = Inr None"
        using less.prems(2) by simp
    qed
    have "filter is_incomplete [] = []" by simp
    from poll_complete [OF True nonew this] ct next_call show ?thesis
      by (simp add: truthy_def)
  qed
qed


lemma movie_not_incomplete: "filter is_incomplete [''movie.rar''] = []"
  by code_simp

theorem vanished_file_is_returned_witness:
  "path_exists vanishing_world 0 ''movie.rar''
   \<and> getsize vanishing_world 0 ''movie.rar'' = Inr 500
   \<and> getsize vanishing_world 2 ''movie.rar'' = Inl ''No such file or directory''
   \<and> wait_for_download_complete vanishing_world [] [] 0 150 3 = Inr (Some ''movie.rar'')"
proof -
  have 1: "listdir vanishing_world 0 = Inr [''movie.rar'']"
    by (simp add: vanishing_world_def)
  have 2: "filter (\<lambda>f. f \<notin> set []) [''movie.rar''] = ''movie.rar'' # []" by simp
  have 4: "path_exists vanishing_world 0 ''movie.rar''" by (simp add: vanishing_world_def)
  have 5: "getsize vanishing_world 0 ''movie.rar'' = Inr 500" by (simp add: vanishing_world_def)
  have 6: "\<forall>k. 1 \<le> k \<and> k \<le> 3 \<longrightarrow>
      (case getsize vanishing_world (0 + 2 * k) ''movie.rar'' of Inl m \<Rightarrow> True | Inr s \<Rightarrow> s = 500)"
    by (simp add: vanishing_world_def)
  have 7: "check_target vanishing_world [] 0 = Inr None" by (simp add: check_target_def)
  have 8: "(0::nat) < 150" by simp
  have 9: "getsize vanishing_world 2 ''movie.rar'' = Inl ''No such file or directory''"
    by (simp add: vanishing_world_def)
  from vanished_file_is_returned [OF 1 2 movie_not_incomplete 4 5 6 7 8] 4 5 9
  show ?thesis by simp
qed

subsection \<open>C4: a file whose size changes\<close>

text \<open>
  Without an address to recheck, the watcher returns only a new, non-temporary file
  that went through a whole stability window in which no sample differed from the first
  size.
\<close>

lemma scan_new_stable:
  assumes "scan_new w sc fns now = Inr (Some fn, t1)"
  shows "fn \<in> set fns \<and>
         (\<exists>t0 fsize. now \<le> t0 \<and> path_exists w t0 fn \<and> getsize w t0 fn = Inr fsize
                      \<and> stability w fn fsize sc t0 = (True, t1))"
  using assms
proof (induction fns arbitrary: now)
  case Nil
  then show ?case by simp
next
  case (Cons f fns)
  show ?case
  proof (cases "path_exists w now f")
    case False
    with Cons.prems have "scan_new w sc fns now = Inr (Some fn, t1)" by simp
    from Cons.IH [OF this] show ?thesis by auto
  next
    case True
    then obtain fsize where sz: "getsize w now f = Inr fsize"
      using Cons.prems by (cases "getsize w now f") auto
    obtain b t where st: "stability w f fsize sc now = (b, t)"
      by (cases "stability w f fsize sc now")
    show ?thesis
    proof (cases b)
      case True
      with Cons.prems \<open>path_exists w now f\<close> sz st have "f = fn" "t = t1" by simp_all
      with \<open>path_exists w now f\<close> sz st True show ?thesis by auto
    next
      case False
      with Cons.prems \<open>path_exists w now f\<close> sz st
      have "scan_new w sc fns t = Inr (Some fn, t1)" by simp
      from Cons.IH [OF this] stability_time [OF st] show ?thesis
        by (meson le_trans list.set_intros(2))
    qed
  qed
qed

lemma poll_without_target:
  assumes "poll w before_files [] sc deadline now = Inr (Some fn)"
  shows "fn \<notin> set before_files \<and> \<not> is_incomplete fn \<and>
         (\<exists>t0 fsize t1. path_exists w t0 fn \<and> getsize w t0 fn = Inr fsize
                         \<and> stability w fn fsize sc t0 = (True, t1))"
  using assms
proof (induction "deadline - now" arbitrary: now rule: less_induct)
  case less
  have lt: "now < deadline"
  proof (rule ccontr)
    assume "\<not> now < deadline"
    from poll_expired [OF this] less.prems show False by simp
  qed
  define new_files where "new_files = filter (\<lambda>f. f \<notin> set before_files)
           (case listdir w now of Inl m \<Rightarrow> [] | Inr names \<Rightarrow> names)"
  then have nf: "filter (\<lambda>f. f \<notin> set before_files)
           (case listdir w now of Inl m \<Rightarrow> [] | Inr names \<Rightarrow> names) = new_files" by simp
  show ?case
  proof (cases "filter is_incomplete new_files = []")
    case False
    from poll_incomplete [OF lt nf False] less.prems
    have "poll w before_files [] sc deadline (now + 3) = Inr (Some fn)" by simp
    moreover have "deadline - (now + 3) < deadline - now" using lt by simp
    ultimately show ?thesis using less.hyps by blast
  next
    case True
    note step = poll_complete [OF lt nf True, of "[]" sc]
    show ?thesis
    proof (cases "scan_new w sc new_files now")
      case (Inl e)
      with step less.prems show ?thesis by simp
    next
      case (Inr r)
      obtain found t1 where r: "r = (found, t1)" by (cases r)
      show ?thesis
      proof (cases found)
        case (Some f)
        with step less.prems Inr r have "f = fn" by simp
        with Inr r Some have sn: "scan_new w sc new_files now = Inr (Some fn, t1)" by simp
        from scan_new_stable [OF sn] have mem: "fn \<in> set new_files"
          and st: "\<exists>t0 fsize. now \<le> t0 \<and> path_exists w t0 fn \<and> getsize w t0 fn = Inr fsize
                      \<and> stability w fn fsize sc t0 = (True, t1)" by simp_all
        from mem have "fn \<notin> set before_files" by (auto simp: new_files_def)
        moreover from mem True have "\<not> is_incomplete fn" by (auto simp: filter_empty_conv)
        ultimately show ?thesis using st by blast
      next
        case None
        with Inr r have sn: "scan_new w sc new_files now = Inr (None, t1)" by simp
        from scan_new_time [OF sn] have le: "now \<le> t1" .
        from step sn less.prems
        have "poll w before_files [] sc deadline (t1 + 2) = Inr (Some fn)"
          by (simp add: check_target_def truthy_def)
        moreover have "deadline - (t1 + 2) < deadline - now" using lt le by simp
        ultimately show ?thesis using less.hyps by blast
      qed
    qed
  qed
qed

lemma stability_True_samples:
  assumes "stability w fn fsize n now = (True, t1)"
  shows "t1 = now + 2 * n \<and>
         (\<forall>k. 1 \<le> k \<and> k \<le> n \<longrightarrow>
            (case getsize w (now + 2 * k) fn of Inl m \<Rightarrow> True | Inr s \<Rightarrow> s = fsize))"
  using assms
proof (induction n arbitrary: now)
  case 0
  then show ?case by simp
next
  case (Suc n)
  let ?new = "case getsize w (now + 2) fn of Inl m \<Rightarrow> fsize | Inr s \<Rightarrow> s"
  from Suc.prems have eq: "?new = fsize" and rest: "stability w fn fsize n (now + 2) = (True, t1)"
    by (simp_all add: Let_def split: if_splits)
  from Suc.IH [OF rest] have t: "t1 = now + 2 + 2 * n"
    and ih: "\<forall>k. 1 \<le> k \<and> k \<le> n \<longrightarrow>
            (case getsize w (now + 2 + 2 * k) fn of Inl m \<Rightarrow> True | Inr s \<Rightarrow> s = fsize)"
    by simp_all
  have "\<forall>k. 1 \<le> k \<and> k \<le> Suc n \<longrightarrow>
            (case getsize w (now + 2 * k) fn of Inl m \<Rightarrow> True | Inr s \<Rightarrow> s = fsize)"
  proof (intro allI impI)
    fix k assume k: "1 \<le> k \<and> k \<le> Suc n"
    show "case getsize w (now + 2 * k) fn of Inl m \<Rightarrow> True | Inr s \<Rightarrow> s = fsize"
    proof (cases "k = 1")
      case True
      with eq show ?thesis by (cases "getsize w (now + 2) fn") simp_all
    next
      case False
      with k obtain j where j: "k = Suc j" "1 \<le> j \<and> j \<le> n" by (cases k) auto
      from ih [rule_format, OF j(2)] j(1) show ?thesis by (simp add: add.assoc)
    qed
  qed
  with t show ?case by simp
qed

lemma watcher_without_target:
  assumes "wait_for_download_complete w before_files [] start timeout sc = Inr (Some fn)"
  shows "fn \<notin> set before_files \<and> \<not> is_incomplete fn \<and>
         (\<exists>t0 fsize. path_exists w t0 fn \<and> getsize w t0 fn = Inr fsize \<and>
            (\<forall>k. 1 \<le> k \<and> k \<le> sc \<longrightarrow>
               (case getsize w (t0 + 2 * k) fn of Inl m \<Rightarrow> True | Inr s \<Rightarrow> s = fsize)))"
proof -
  from assms have "poll w before_files [] sc (start + 2 * timeout) start = Inr (Some fn)"
    by (simp add: wait_for_download_complete_def check_target_def truthy_def)
  from poll_without_target [OF this] obtain t0 fsize t1 where
    a: "fn \<notin> set before_files" "\<not> is_incomplete fn" "path_exists w t0 fn"
       "getsize w t0 fn = Inr fsize" "stability w fn fsize sc t0 = (True, t1)"
    by blast
  from stability_True_samples [OF a(5)] a(1-4) show ?thesis by blast
qed


text \<open>
  Claim C4 says that a file whose sampled size differs from the previous sample is not
  returned in that poll cycle. In \<open>growing_world\<close>, with the address
  \<open>https://x.test/dl/movie.rar\<close>, the cycle that starts at instant 2 samples 200 and
  then 400 bytes: the stability window ends with \<open>stable = False\<close> and the scan of
  the new files returns nothing. The recheck at the end of the same cycle calls
  \<open>check_file_exists\<close>, which finds \<open>movie.rar\<close> in the directory, and the watcher
  returns it.
\<close>

theorem unstable_file_returned_by_recheck:
  "stability growing_world ''movie.rar'' 200 3 2 = (False, 4)
   \<and> scan_new growing_world 3 [''movie.rar''] 2 = Inr (None, 4)
   \<and> wait_for_download_complete growing_world [] ''https://x.test/dl/movie.rar'' 0 150 3
       = Inr (Some ''movie.rar'')"
  by code_simp

subsection \<open>C5: the refresh threshold\<close>




lemma process_link_skip:
  assumes "existing oc = Inr ex" and "truthy ex"
  shows "process_link N oc link st =
           ([EvSkipped (case_option [] id ex), progress (st\<lparr>skipped := skipped st + 1\<rparr>)],
            Inr (st\<lparr>skipped := skipped st + 1\<rparr>))"
  using assms by (simp add: process_link_def Let_def)

lemma process_link_refresh:
  assumes "existing oc = Inr ex" and "\<not> truthy ex"
    and "N \<le> int (downloads_since_refresh st)" and "refresh_setup oc = None"
  shows "process_link N oc link st =
           (EvRefreshing # fst (trigger oc link (st\<lparr>downloads_since_refresh := 0\<rparr>)),
            snd (trigger oc link (st\<lparr>downloads_since_refresh := 0\<rparr>)))"
  using assms by (simp add: process_link_def split: prod.splits)

lemma process_link_no_refresh:
  assumes "existing oc = Inr ex" and "\<not> truthy ex"
    and "int (downloads_since_refresh st) < N"
  shows "process_link N oc link st = trigger oc link st"
  using assms by (simp add: process_link_def)







subsection \<open>C6: a dead session is replaced and the trigger repeated once\<close>

lemma process_links_step:
  assumes "process_link N (ocs link) link st = (evs, Inr st1)"
  shows "process_links N ocs (link # links) st
           = (evs @ fst (process_links N ocs links st1), snd (process_links N ocs links st1))"
  using assms by (simp split: prod.splits)

lemma trigger_expired:
  assumes "first_click oc = Inr SessionExpired" and "restart_setup oc = None"
    and "second_click oc = Inr r2"
  shows "trigger oc link st =
           ([EvClick link (downloads_since_refresh st), EvRestarting, EvClick link 0]
              @ fst (record_result r2 (st\<lparr>downloads_since_refresh := 0\<rparr>)),
            snd (record_result r2 (st\<lparr>downloads_since_refresh := 0\<rparr>)))"
  using assms by (simp add: trigger_def Let_def split: prod.splits)

text \<open>
  Claim C6. Let the address not be on disk, let its first trigger answer
  \<open>SESSION_EXPIRED\<close>, and let \<open>setup_driver\<close> return a driver where it is called (a
  failure to establish a session is fatal to the run). Then the loop body calls the
  trigger exactly twice for the address, the second time after the restart; the result
  of the second call is recorded, as Failed unless it is \<open>True\<close>; and the loop goes on
  with the next address from the recorded state.
\<close>

theorem session_death_retried_once:
  assumes "existing oc = Inr ex" and "\<not> truthy ex"
    and "int (downloads_since_refresh st) < N \<or> refresh_setup oc = None"
    and "first_click oc = Inr SessionExpired"
    and "restart_setup oc = None"
    and "second_click oc = Inr r2"
    and "ocs link = oc"
  shows "\<exists>st1.
           fst (process_link N oc link st)
             = (if N \<le> int (downloads_since_refresh st)
                then [EvRefreshing, EvClick link 0]
                else [EvClick link (downloads_since_refresh st)])
               @ [EvRestarting, EvClick link 0, progress st1]
         \<and> snd (process_link N oc link st) = Inr st1
         \<and> successful st1 = successful st + (if r2 = PyTrue then 1 else 0)
         \<and> failed st1 = failed st + (if r2 = PyTrue then 0 else 1)
         \<and> skipped st1 = skipped st
         \<and> downloads_since_refresh st1 = (if r2 = PyTrue then 1 else 0)
         \<and> process_links N ocs (link # links) st
             = (fst (process_link N oc link st) @ fst (process_links N ocs links st1),
                snd (process_links N ocs links st1))"
proof -
  define st1 where "st1 =
     (if r2 = PyTrue
      then st\<lparr>successful := successful st + 1, downloads_since_refresh := 1\<rparr>
      else st\<lparr>failed := failed st + 1, downloads_since_refresh := 0\<rparr>)"
  have rr: "record_result r2 (st\<lparr>downloads_since_refresh := 0\<rparr>) = ([progress st1], Inr st1)"
    by (simp add: record_result_def st1_def Let_def progress_def)
  have val: "process_link N oc link st
           = ((if N \<le> int (downloads_since_refresh st)
               then [EvRefreshing, EvClick link 0]
               else [EvClick link (downloads_since_refresh st)])
              @ [EvRestarting, EvClick link 0, progress st1],
              Inr st1)"
  proof (cases "N \<le> int (downloads_since_refresh st)")
    case True
    with assms(3) have rs: "refresh_setup oc = None" by simp
    show ?thesis
      using True rr
      by (simp add: process_link_refresh [OF assms(1,2) True rs]
          trigger_expired [OF assms(4,5,6)])
  next
    case False
    then have lt: "int (downloads_since_refresh st) < N" by simp
    show ?thesis
      using False rr
      by (simp add: process_link_no_refresh [OF assms(1,2) lt]
          trigger_expired [OF assms(4,5,6)])
  qed
  then have ev: "fst (process_link N oc link st)
           = (if N \<le> int (downloads_since_refresh st)
              then [EvRefreshing, EvClick link 0]
              else [EvClick link (downloads_since_refresh st)])
             @ [EvRestarting, EvClick link 0, progress st1]"
    and res: "snd (process_link N oc link st) = Inr st1"
    by simp_all
  have pl: "process_link N (ocs link) link st = (fst (process_link N oc link st), Inr st1)"
    using res assms(7) by (cases "process_link N oc link st") simp
  have cont: "process_links N ocs (link # links) st
           = (fst (process_link N oc link st) @ fst (process_links N ocs links st1),
              snd (process_links N ocs links st1))"
    using pl by (rule process_links_step [where ocs = ocs and link = link])
  have fields: "successful st1 = successful st + (if r2 = PyTrue then 1 else 0)"
    "failed st1 = failed st + (if r2 = PyTrue then 0 else 1)"
    "skipped st1 = skipped st"
    "downloads_since_refresh st1 = (if r2 = PyTrue then 1 else 0)"
    by (simp_all add: st1_def)
  from ev res fields cont show ?thesis by blast
qed

theorem session_death_retried_once_witness:
  "\<exists>st1. fst (process_link 10 expired_twice ''https://x.test/dl/a.rar'' initial_state)
           = [EvClick ''https://x.test/dl/a.rar'' 0, EvRestarting,
              EvClick ''https://x.test/dl/a.rar'' 0, progress st1]
     \<and> snd (process_link 10 expired_twice ''https://x.test/dl/a.rar'' initial_state) = Inr st1
     \<and> successful st1 = 0 \<and> failed st1 = 1 \<and> skipped st1 = 0
     \<and> downloads_since_refresh st1 = 0"
proof -
  have 1: "existing expired_twice = Inr None" by (simp add: expired_twice_def)
  have 2: "\<not> truthy None" by (simp add: truthy_def)
  have 3: "int (downloads_since_refresh initial_state) < 10 \<or> refresh_setup expired_twice = None"
    by (simp add: initial_state_def)
  have 4: "first_click expired_twice = Inr SessionExpired" by (simp add: expired_twice_def)
  have 5: "restart_setup expired_twice = None" by (simp add: expired_twice_def)
  have 6: "second_click expired_twice = Inr SessionExpired" by (simp add: expired_twice_def)
  have 7: "(\<lambda>l. expired_twice) ''https://x.test/dl/a.rar'' = expired_twice" by simp
  from session_death_retried_once [OF 1 2 3 4 5 6 7, where links = "[]"
      and link = "''https://x.test/dl/a.rar''"]
  obtain st1 where
    "fst (process_link 10 expired_twice ''https://x.test/dl/a.rar'' initial_state)
       = (if 10 \<le> int (downloads_since_refresh initial_state)
          then [EvRefreshing, EvClick ''https://x.test/dl/a.rar'' 0]
          else [EvClick ''https://x.test/dl/a.rar'' (downloads_since_refresh initial_state)])
         @ [EvRestarting, EvClick ''https://x.test/dl/a.rar'' 0, progress st1]"
    "snd (process_link 10 expired_twice ''https://x.test/dl/a.rar'' initial_state) = Inr st1"
    "successful st1 = successful initial_state + (if SessionExpired = PyTrue then 1 else 0)"
    "failed st1 = failed initial_state + (if SessionExpired = PyTrue then 0 else 1)"
    "skipped st1 = skipped initial_state"
    "downloads_since_refresh st1 = (if SessionExpired = PyTrue then 1 else 0)"
    by blast
  then show ?thesis
    by (intro exI [of _ st1]) (simp add: initial_state_def)
qed

subsection \<open>C1: a completed download in the tally\<close>

lemma scenario_links:
  "collect_links scenario_args scenario_env
     = Inr [''https://x.test/dl/alpha.rar'', ''https://x.test/dl/beta.rar'',
            ''https://x.test/dl/gamma.rar'']"
  by code_simp

lemma alpha_check: "check_at scenario_world 0 ''https://x.test/dl/alpha.rar'' = Inr (Some ''alpha.rar'')"
  by code_simp

lemma beta_check: "check_at scenario_world 2 ''https://x.test/dl/beta.rar'' = Inr None"
  by code_simp

lemma gamma_check: "check_at scenario_world 30 ''https://x.test/dl/gamma.rar'' = Inr None"
  by code_simp

lemma beta_watch:
  "wait_for_download_complete scenario_world [''alpha.rar''] ''https://x.test/dl/beta.rar'' 11 150 3
     = Inr (Some ''beta.rar'')"
  by code_simp

lemma gamma_late_check:
  "check_file_exists any_host no_network False (Inr [''alpha.rar'', ''beta.rar''])
     ''https://x.test/dl/gamma.rar'' = Inr None"
  by code_simp

lemma late_listing: "20 \<le> t \<Longrightarrow> listdir scenario_world t = Inr [''alpha.rar'', ''beta.rar'']"
  by (simp add: scenario_world_def)

lemma scenario_world_fields:
  "authority_ok scenario_world = any_host"
  "head_request scenario_world = no_network"
  "on_windows scenario_world = False"
  by (simp_all add: scenario_world_def)

lemma gamma_target: "31 \<le> t \<Longrightarrow> check_target scenario_world ''https://x.test/dl/gamma.rar'' t = Inr None"
  by (simp add: check_target_def check_at_def late_listing scenario_world_fields gamma_late_check)

lemma gamma_watch:
  "wait_for_download_complete scenario_world [''alpha.rar'', ''beta.rar'']
     ''https://x.test/dl/gamma.rar'' 31 150 3 = Inr None"
proof -
  have a: "\<forall>t. 31 \<le> t \<longrightarrow>
             (case listdir scenario_world t of Inl m \<Rightarrow> True
              | Inr names \<Rightarrow> set names \<subseteq> set [''alpha.rar'', ''beta.rar''])"
    by (simp add: late_listing)
  have b: "\<forall>t. 31 \<le> t \<longrightarrow> check_target scenario_world ''https://x.test/dl/gamma.rar'' t = Inr None"
    by (simp add: gamma_target)
  have "poll scenario_world [''alpha.rar'', ''beta.rar''] ''https://x.test/dl/gamma.rar'' 3
          (31 + 2 * 150) 31 = Inr None"
    by (rule poll_quiet [OF a b])
  then show ?thesis
    by (simp add: wait_for_download_complete_def gamma_target truthy_def)
qed

text \<open>The trigger has no path that returns \<open>True\<close>.\<close>

lemma click_never_reports_success: "click_download_button w page_url env \<noteq> Inr PyTrue"
  by (auto simp: click_download_button_def on_exception_def
      split: click_env.splits error.splits sum.splits if_splits)

lemma click_after_watch:
  assumes "listdir w t = Inr files_before"
    and "wait_for_download_complete w files_before page_url (t + d) 150 3 = Inr completed"
  shows "click_download_button w page_url (Clicked t d) = Inr PyFalse"
  using assms by (simp add: click_download_button_def)

lemma beta_click:
  "click_download_button scenario_world ''https://x.test/dl/beta.rar'' (Clicked 10 1) = Inr PyFalse"
proof (rule click_after_watch)
  show "listdir scenario_world 10 = Inr [''alpha.rar'']" by (simp add: scenario_world_def)
  show "wait_for_download_complete scenario_world [''alpha.rar''] ''https://x.test/dl/beta.rar''
          (10 + 1) 150 3 = Inr (Some ''beta.rar'')"
    using beta_watch by simp
qed

lemma gamma_click:
  "click_download_button scenario_world ''https://x.test/dl/gamma.rar'' (Clicked 30 1) = Inr PyFalse"
proof (rule click_after_watch)
  show "listdir scenario_world 30 = Inr [''alpha.rar'', ''beta.rar'']" by (simp add: late_listing)
  show "wait_for_download_complete scenario_world [''alpha.rar'', ''beta.rar'']
          ''https://x.test/dl/gamma.rar'' (30 + 1) 150 3 = Inr None"
    using gamma_watch by simp
qed

lemma trigger_not_expired:
  assumes "first_click oc = Inr r" and "r \<noteq> SessionExpired"
  shows "trigger oc link st =
           (EvClick link (downloads_since_refresh st) # fst (record_result r st),
            snd (record_result r st))"
  using assms by (simp add: trigger_def split: prod.splits)

lemma scenario_alpha:
  "process_link 10 (outcomes scenario_world scenario_envs ''https://x.test/dl/alpha.rar'')
     ''https://x.test/dl/alpha.rar'' initial_state
   = ([EvSkipped ''alpha.rar'', EvProgress 0 1 0],
      Inr \<lparr>successful = 0, failed = 0, skipped = 1, downloads_since_refresh = 0\<rparr>)"
proof -
  have e: "existing (outcomes scenario_world scenario_envs ''https://x.test/dl/alpha.rar'')
             = Inr (Some ''alpha.rar'')"
    by (simp add: outcomes_def scenario_envs_def alpha_check)
  have t: "truthy (Some ''alpha.rar'')" by (simp add: truthy_def)
  show ?thesis
    by (simp add: process_link_skip [OF e t] initial_state_def progress_def)
qed

lemma scenario_beta:
  "process_link 10 (outcomes scenario_world scenario_envs ''https://x.test/dl/beta.rar'')
     ''https://x.test/dl/beta.rar''
     \<lparr>successful = 0, failed = 0, skipped = 1, downloads_since_refresh = 0\<rparr>
   = ([EvClick ''https://x.test/dl/beta.rar'' 0, EvRestarting,
       EvClick ''https://x.test/dl/beta.rar'' 0, EvProgress 0 1 1],
      Inr \<lparr>successful = 0, failed = 1, skipped = 1, downloads_since_refresh = 0\<rparr>)"
proof -
  let ?oc = "outcomes scenario_world scenario_envs ''https://x.test/dl/beta.rar''"
  have e: "existing ?oc = Inr None"
    by (simp add: outcomes_def scenario_envs_def beta_check)
  have t: "\<not> truthy None" by (simp add: truthy_def)
  have c1: "first_click ?oc = Inr SessionExpired"
    by (simp add: outcomes_def scenario_envs_def click_download_button_def)
  have r: "restart_setup ?oc = None" by (simp add: outcomes_def scenario_envs_def)
  have c2: "second_click ?oc = Inr PyFalse"
    using beta_click by (simp add: outcomes_def scenario_envs_def)
  have lt: "int (downloads_since_refresh
      \<lparr>successful = 0, failed = 0, skipped = 1, downloads_since_refresh = 0\<rparr>) < 10" by simp
  show ?thesis
    by (subst process_link_no_refresh [OF e t lt], subst trigger_expired [OF c1 r c2])
      (simp add: record_result_def progress_def)
qed

lemma scenario_gamma:
  "process_link 10 (outcomes scenario_world scenario_envs ''https://x.test/dl/gamma.rar'')
     ''https://x.test/dl/gamma.rar''
     \<lparr>successful = 0, failed = 1, skipped = 1, downloads_since_refresh = 0\<rparr>
   = ([EvClick ''https://x.test/dl/gamma.rar'' 0, EvProgress 0 1 2],
      Inr \<lparr>successful = 0, failed = 2, skipped = 1, downloads_since_refresh = 0\<rparr>)"
proof -
  let ?oc = "outcomes scenario_world scenario_envs ''https://x.test/dl/gamma.rar''"
  have e: "existing ?oc = Inr None"
    by (simp add: outcomes_def scenario_envs_def gamma_check)
  have t: "\<not> truthy None" by (simp add: truthy_def)
  have c1: "first_click ?oc = Inr PyFalse"
    using gamma_click by (simp add: outcomes_def scenario_envs_def)
  have ne: "PyFalse \<noteq> SessionExpired" by simp
  have lt: "int (downloads_since_refresh
      \<lparr>successful = 0, failed = 1, skipped = 1, downloads_since_refresh = 0\<rparr>) < 10" by simp
  show ?thesis
    by (subst process_link_no_refresh [OF e t lt], subst trigger_not_expired [OF c1 ne])
      (simp add: record_result_def progress_def)
qed

text \<open>
  Claim C1 says that an address whose trigger is invoked and whose download the watcher
  reports is recorded as Succeeded, and that the scenario ends with the tally
  succeeded 1, skipped 1, failed 1. In the scenario the watcher reports \<open>beta.rar\<close> for
  the second address, \<open>click_download_button\<close> returns \<open>False\<close> all the same, and the
  run ends with succeeded 0, skipped 1, failed 2.
\<close>

theorem scenario_tally:
  "wait_for_download_complete scenario_world [''alpha.rar''] ''https://x.test/dl/beta.rar'' 11 150 3
     = Inr (Some ''beta.rar'')
   \<and> click_download_button scenario_world ''https://x.test/dl/beta.rar'' (Clicked 10 1) = Inr PyFalse
   \<and> run scenario_args scenario_env
       = ([EvProgress 0 0 0, EvSkipped ''alpha.rar'', EvProgress 0 1 0,
           EvClick ''https://x.test/dl/beta.rar'' 0, EvRestarting,
           EvClick ''https://x.test/dl/beta.rar'' 0, EvProgress 0 1 1,
           EvClick ''https://x.test/dl/gamma.rar'' 0, EvProgress 0 1 2,
           EvSummary 0 1 2],
          Completed \<lparr>successful = 0, failed = 2, skipped = 1, downloads_since_refresh = 0\<rparr>)"
proof -
  have loop: "process_links 10 (outcomes scenario_world scenario_envs)
       [''https://x.test/dl/alpha.rar'', ''https://x.test/dl/beta.rar'',
        ''https://x.test/dl/gamma.rar''] initial_state
     = ([EvSkipped ''alpha.rar'', EvProgress 0 1 0,
           EvClick ''https://x.test/dl/beta.rar'' 0, EvRestarting,
           EvClick ''https://x.test/dl/beta.rar'' 0, EvProgress 0 1 1,
           EvClick ''https://x.test/dl/gamma.rar'' 0, EvProgress 0 1 2],
        Inr \<lparr>successful = 0, failed = 2, skipped = 1, downloads_since_refresh = 0\<rparr>)"
    using scenario_alpha scenario_beta scenario_gamma by simp
  have f: "first_driver scenario_env = None" "the_world scenario_env = scenario_world"
    "link_envs scenario_env = scenario_envs" "arg_session_refresh scenario_args = 10"
    by (simp_all add: scenario_env_def scenario_args_def)
  have "run scenario_args scenario_env
       = ([EvProgress 0 0 0, EvSkipped ''alpha.rar'', EvProgress 0 1 0,
           EvClick ''https://x.test/dl/beta.rar'' 0, EvRestarting,
           EvClick ''https://x.test/dl/beta.rar'' 0, EvProgress 0 1 1,
           EvClick ''https://x.test/dl/gamma.rar'' 0, EvProgress 0 1 2,
           EvSummary 0 1 2],
          Completed \<lparr>successful = 0, failed = 2, skipped = 1, downloads_since_refresh = 0\<rparr>)"
    using loop by (simp add: run_def f scenario_links)
  with beta_watch beta_click show ?thesis by simp
qed

subsection \<open>C2: when the tally is reported\<close>

lemma cancelled_run:
  "run scenario_args cancelled_env
     = ([EvProgress 0 0 0, EvSkipped ''alpha.rar'', EvProgress 0 1 0,
         EvClick ''https://x.test/dl/beta.rar'' 0, EvInterrupted],
        Aborted KeyboardInterrupt)"
  by code_simp

lemma fatal_run:
  "run scenario_args fatal_env
     = ([EvProgress 0 0 0, EvSkipped ''alpha.rar'', EvProgress 0 1 0,
         EvClick ''https://x.test/dl/beta.rar'' 0, EvRestarting,
         EvFatal ''cannot start chromedriver''],
        Aborted (Exn ''cannot start chromedriver''))"
  by code_simp

lemma skip_run:
  "run scenario_args skip_env
     = ([EvProgress 0 0 0, EvSkipped ''alpha.rar'', EvProgress 0 1 0, EvSummary 0 1 0],
        Completed \<lparr>successful = 0, failed = 0, skipped = 1, downloads_since_refresh = 0\<rparr>)"
  by code_simp


lemma record_result_no_summary: "EvSummary s k f \<notin> set (fst (record_result r st))"
  by (simp add: record_result_def progress_def Let_def)

lemma trigger_no_summary: "EvSummary s k f \<notin> set (fst (trigger oc link st))"
  by (auto simp: trigger_def record_result_def progress_def Let_def
      split: sum.splits option.splits if_splits)

lemma trigger_count:
  assumes "snd (trigger oc link st) = Inr st1"
  shows "successful st1 + skipped st1 + failed st1 = successful st + skipped st + failed st + 1"
  using assms
  by (auto simp: trigger_def record_result_def Let_def
      split: sum.splits option.splits if_splits)

lemma process_link_no_summary: "EvSummary s k f \<notin> set (fst (process_link N oc link st))"
proof -
  have "EvSummary s k f \<notin> set (fst (trigger oc link st))"
    "EvSummary s k f \<notin> set (fst (trigger oc link (st\<lparr>downloads_since_refresh := 0\<rparr>)))"
    by (rule trigger_no_summary)+
  then show ?thesis
    by (auto simp: process_link_def progress_def Let_def
        split: sum.splits option.splits if_splits prod.splits)
qed

lemma process_link_count:
  assumes "snd (process_link N oc link st) = Inr st1"
  shows "successful st1 + skipped st1 + failed st1 = successful st + skipped st + failed st + 1"
proof -
  have a: "\<And>x. snd (trigger oc link st) = Inr x \<Longrightarrow>
      successful x + skipped x + failed x = successful st + skipped st + failed st + 1"
    by (rule trigger_count)
  have b: "\<And>x. snd (trigger oc link (st\<lparr>downloads_since_refresh := 0\<rparr>)) = Inr x \<Longrightarrow>
      successful x + skipped x + failed x = successful st + skipped st + failed st + 1"
    using trigger_count [of oc link "st\<lparr>downloads_since_refresh := 0\<rparr>"] by simp
  show ?thesis
    using assms a b
    by (auto simp: process_link_def Let_def
        split: sum.splits option.splits if_splits prod.splits)
qed

lemma process_links_no_summary: "EvSummary s k f \<notin> set (fst (process_links N ocs links st))"
proof (induction links arbitrary: st)
  case Nil
  show ?case by simp
next
  case (Cons link links)
  obtain evs r where pl: "process_link N (ocs link) link st = (evs, r)"
    by (cases "process_link N (ocs link) link st")
  have evs: "EvSummary s k f \<notin> set evs"
    using process_link_no_summary [of s k f N "ocs link" link st] pl by simp
  show ?case
  proof (cases r)
    case (Inl e)
    with pl evs show ?thesis by simp
  next
    case (Inr st1)
    with pl evs Cons.IH [of st1] show ?thesis
      by (cases "process_links N ocs links st1") simp
  qed
qed

lemma process_links_count:
  assumes "snd (process_links N ocs links st) = Inr st1"
  shows "successful st1 + skipped st1 + failed st1
           = successful st + skipped st + failed st + length links"
  using assms
proof (induction links arbitrary: st)
  case Nil
  then show ?case by simp
next
  case (Cons link links)
  obtain evs r where pl: "process_link N (ocs link) link st = (evs, r)"
    by (cases "process_link N (ocs link) link st")
  show ?case
  proof (cases r)
    case (Inl e)
    with pl Cons.prems show ?thesis by simp
  next
    case (Inr st2)
    with pl have "snd (process_link N (ocs link) link st) = Inr st2" by simp
    then have c: "successful st2 + skipped st2 + failed st2
                    = successful st + skipped st + failed st + 1"
      by (rule process_link_count)
    from pl Inr Cons.prems have "snd (process_links N ocs links st2) = Inr st1"
      by (cases "process_links N ocs links st2") simp
    from Cons.IH [OF this] c show ?thesis by simp
  qed
qed

lemma handler_no_summary: "EvSummary s k f \<notin> set (handler e)"
  by (cases e) (simp_all add: handler_def)

text \<open>
  Claim C2, amended. When the loop runs to its end over a non-empty list of addresses,
  the last line of the run is the summary with the final counts, which add up to the
  number of addresses. When the run ends by user cancellation or by a fatal error, the
  run shows no summary: it ends with the one line of the handler, and the counts
  recorded so far appear only in the progress updates shown before. A run without
  addresses shows neither.
\<close>

theorem summary_only_on_completion:
  "(\<forall>st. snd (run args env) = Completed st \<longrightarrow>
      (\<exists>evs links. fst (run args env)
                      = evs @ [EvSummary (successful st) (skipped st) (failed st)]
                  \<and> collect_links args env = Inr links
                  \<and> successful st + skipped st + failed st = length links))
   \<and> (\<forall>e. snd (run args env) = Aborted e \<longrightarrow>
        (\<forall>s k f. EvSummary s k f \<notin> set (fst (run args env)))
        \<and> (\<exists>evs. fst (run args env) = evs @ handler e))
   \<and> (snd (run args env) = NoLinks \<longrightarrow> fst (run args env) = [EvNoLinks])"
proof (cases "first_driver env")
  case (Some e)
  then show ?thesis by (simp add: run_def handler_no_summary)
next
  case None
  show ?thesis
  proof (cases "collect_links args env")
    case (Inl e)
    with None show ?thesis by (simp add: run_def handler_no_summary)
  next
    case (Inr links)
    show ?thesis
    proof (cases "links = []")
      case True
      with None Inr show ?thesis by (simp add: run_def)
    next
      case False
      let ?loop = "process_links (arg_session_refresh args)
                     (outcomes (the_world env) (link_envs env)) links initial_state"
      obtain evs r where loop: "?loop = (evs, r)" by (cases ?loop)
      have ns: "\<And>s k f. EvSummary s k f \<notin> set evs"
        using process_links_no_summary [of _ _ _ "arg_session_refresh args"
            "outcomes (the_world env) (link_envs env)" links initial_state] loop by simp
      show ?thesis
      proof (cases r)
        case (Inl e)
        with None Inr False loop ns show ?thesis
          by (simp add: run_def handler_no_summary)
      next
        case (Inr st)
        with loop have "snd ?loop = Inr st" by simp
        from process_links_count [OF this]
        have "successful st + skipped st + failed st = length links"
          by (simp add: initial_state_def)
        with None \<open>collect_links args env = Inr links\<close> False loop Inr show ?thesis
          by (simp add: run_def)
      qed
    qed
  qed
qed

theorem summary_only_on_completion_witness:
  "snd (run scenario_args skip_env)
     = Completed \<lparr>successful = 0, failed = 0, skipped = 1, downloads_since_refresh = 0\<rparr>
   \<and> (\<exists>evs. fst (run scenario_args skip_env) = evs @ [EvSummary 0 1 0])
   \<and> snd (run scenario_args fatal_env) = Aborted (Exn ''cannot start chromedriver'')
   \<and> (\<forall>s k f. EvSummary s k f \<notin> set (fst (run scenario_args fatal_env)))"
proof -
  have c: "snd (run scenario_args skip_env)
     = Completed \<lparr>successful = 0, failed = 0, skipped = 1, downloads_since_refresh = 0\<rparr>"
    by (simp add: skip_run)
  have a: "snd (run scenario_args fatal_env) = Aborted (Exn ''cannot start chromedriver'')"
    by (simp add: fatal_run)
  from summary_only_on_completion [of scenario_args skip_env] c
  have 1: "\<exists>evs. fst (run scenario_args skip_env) = evs @ [EvSummary 0 1 0]"
    by auto
  from summary_only_on_completion [of scenario_args fatal_env] a
  have 2: "\<forall>s k f. EvSummary s k f \<notin> set (fst (run scenario_args fatal_env))"
    by blast
  from c a 1 2 show ?thesis by blast
qed

text \<open>
  Claim C2 as stated has the tally reported also after a cancellation and after a fatal
  error. In both runs below one address has been recorded as skipped, and the run ends
  without a summary.
\<close>

theorem no_summary_after_abort_counterexample:
  "run scenario_args cancelled_env
     = ([EvProgress 0 0 0, EvSkipped ''alpha.rar'', EvProgress 0 1 0,
         EvClick ''https://x.test/dl/beta.rar'' 0, EvInterrupted],
        Aborted KeyboardInterrupt)
   \<and> EvSummary 0 1 0 \<notin> set (fst (run scenario_args cancelled_env))
   \<and> run scenario_args fatal_env
     = ([EvProgress 0 0 0, EvSkipped ''alpha.rar'', EvProgress 0 1 0,
         EvClick ''https://x.test/dl/beta.rar'' 0, EvRestarting,
         EvFatal ''cannot start chromedriver''],
        Aborted (Exn ''cannot start chromedriver''))
   \<and> EvSummary 0 1 0 \<notin> set (fst (run scenario_args fatal_env))"
  by (simp add: cancelled_run fatal_run)

end
